theory Spec2Isabelle
  imports Main
begin

section \<open>Tokens, the token stream and the tree\<close>

text \<open>
  The token categories of Python's \<^verbatim>\<open>token\<close> module that \<^verbatim>\<open>mark_tokens.py\<close> names,
  and one constructor for every other category.
\<close>

datatype tok_kind = NAME | NUMBER | STRING | OP | NEWLINE | ENDMARKER | OTHER nat

text \<open>
  A token as the marking code reads it: \<^verbatim>\<open>tok.type\<close>, \<^verbatim>\<open>tok.string\<close> (together
  \<^verbatim>\<open>tok[:2]\<close>) and \<^verbatim>\<open>tok.index\<close>, its ordinal position in the stream.
\<close>

datatype token = Token (tok_type: tok_kind) (tok_string: string) (index: nat)

text \<open>
  What the tokenizer delivers for one token: category, text and start position
  (line, column). The stream numbers its tokens by enumeration, so the \<open>index\<close> of a
  token is attached when the token is read from the stream (\<open>tok_at\<close>).
\<close>

datatype lexeme = Lexeme (lex_type: tok_kind) (lex_string: string) (lex_start: "int \<times> int")

text \<open>
  The exceptions of the marking pass. \<open>Diverges\<close> is not an exception: it is the outcome
  of a loop that never returns.
\<close>

datatype error = IndexError | ValueError | AttributeError | Diverges

fun ebind :: "error + 'a \<Rightarrow> ('a \<Rightarrow> error + 'b) \<Rightarrow> error + 'b" where
  "ebind (Inl e) f = Inl e"
| "ebind (Inr x) f = f x"

text \<open>
  The node classes that have a \<^verbatim>\<open>visit_\<close> method in \<^verbatim>\<open>MarkTokens\<close>; every other class is
  \<open>OtherStmt\<close> when it is a subclass of \<^verbatim>\<open>ast.stmt\<close> and \<open>OtherNode\<close> when it is not.
\<close>

datatype node_class =
    Attribute | AssignAttr | DelAttr | Call | Subscript | Tuple | Num | Keyword
  | ListComp | SetComp | DictComp | Comprehension
  | OtherStmt string | OtherNode string

fun is_stmt :: "node_class \<Rightarrow> bool" where
  "is_stmt (OtherStmt _) = True"
| "is_stmt _ = False"

text \<open>
  The attributes of a node that the pass reads: its class, \<^verbatim>\<open>lineno\<close>, \<^verbatim>\<open>col_offset\<close>
  (absent on nodes without a position) and \<^verbatim>\<open>arg\<close> (read on keyword nodes).
\<close>

datatype attrs = Attrs (cls: node_class) (lineno: int) (col_offset: "int option")
  (arg: "string option")

text \<open>
  A node: its attributes, its children in the order \<^verbatim>\<open>util.iter_children\<close> yields them,
  and the two fields the pass assigns, absent before it ran.
\<close>

datatype node = Node (attrs: attrs) (children: "node list")
  (first_token: "token option") (last_token: "token option")

text \<open>
  The \<^verbatim>\<open>MarkTokens\<close> object: the token stream of \<^verbatim>\<open>self._code\<close>, and whether the class
  body was evaluated under \<^verbatim>\<open>six.PY2\<close> (which decides two entries of the method table).
\<close>

record mark_tokens =
  code :: "lexeme list"
  py2 :: bool

section \<open>The token stream accessor and the helpers of util\<close>

definition tok_at :: "lexeme list \<Rightarrow> nat \<Rightarrow> token" where
  "tok_at c i = Token (lex_type (c ! i)) (lex_string (c ! i)) i"

text \<open>
  Modelled from the spec: \<^verbatim>\<open>ASTTokens.next_token\<close>, which is not in the source tree.
  "\<^verbatim>\<open>next(token) -> Token\<close> (fails if no successor)".
\<close>

definition next_token :: "lexeme list \<Rightarrow> token \<Rightarrow> error + token" where
  "next_token c tok =
     (if index tok + 1 < length c then Inr (tok_at c (index tok + 1)) else Inl IndexError)"

text \<open>
  Modelled from the spec: \<^verbatim>\<open>ASTTokens.prev_token\<close>, which is not in the source tree.
  "\<^verbatim>\<open>prev(token) -> Token\<close> (fails if no predecessor)".
\<close>

definition prev_token :: "lexeme list \<Rightarrow> token \<Rightarrow> error + token" where
  "prev_token c tok =
     (if 0 < index tok \<and> index tok - 1 < length c then Inr (tok_at c (index tok - 1))
      else Inl IndexError)"

text \<open>
  Modelled from the spec: \<^verbatim>\<open>ASTTokens.token_range\<close>, which is not in the source tree.
  "\<^verbatim>\<open>tokens_between(a, b)\<close> -> ordered sequence of Token (inclusive, empty if
  \<^verbatim>\<open>a.index > b.index\<close>)".
\<close>

definition token_range :: "lexeme list \<Rightarrow> token \<Rightarrow> token \<Rightarrow> token list" where
  "token_range c a b = map (tok_at c) [index a ..< min (index b + 1) (length c)]"

text \<open>
  Modelled from the spec: \<^verbatim>\<open>util.match_token\<close>, which is not in the source tree: a token
  matches a "(kind, optional literal text) predicate".
\<close>

definition match_token :: "token \<Rightarrow> tok_kind \<Rightarrow> string option \<Rightarrow> bool" where
  "match_token tok ty str = (tok_type tok = ty \<and> (str = None \<or> str = Some (tok_string tok)))"

text \<open>
  Modelled from the spec: \<^verbatim>\<open>util.expect_token\<close>, which is not in the source tree:
  "asserting the new token equals the expected" one, with the failure "expected-token
  mismatch".
\<close>

definition expect_token :: "token \<Rightarrow> tok_kind \<Rightarrow> string option \<Rightarrow> error + unit" where
  "expect_token tok ty str = (if match_token tok ty str then Inr () else Inl ValueError)"

text \<open>
  Modelled from the spec: \<^verbatim>\<open>ASTTokens.find_token\<close>, which is not in the source tree.
  "\<^verbatim>\<open>find(from_token, predicate, direction) -> Token\<close> (fails if none found before
  stream end)". The search starts at \<open>from_token\<close> itself and walks the stream in the
  given direction; the failure is the \<^verbatim>\<open>IndexError\<close> that \<^verbatim>\<open>_find_last_in_line\<close> catches.
\<close>

definition find_token ::
  "lexeme list \<Rightarrow> token \<Rightarrow> tok_kind \<Rightarrow> string option \<Rightarrow> bool \<Rightarrow> error + token" where
  "find_token c start ty str reverse =
     (case List.find (\<lambda>t. match_token t ty str)
             (start # (if reverse then rev (map (tok_at c) [0 ..< min (index start) (length c)])
                       else map (tok_at c) [index start + 1 ..< length c])) of
        None \<Rightarrow> Inl IndexError
      | Some t \<Rightarrow> Inr t)"

text \<open>
  Modelled from the spec: \<^verbatim>\<open>ASTTokens.get_token_from_utf8\<close>, which is not in the source
  tree. "\<^verbatim>\<open>token_at(position) -> Token | absent\<close>": the token that starts at the position.
\<close>

definition get_token_from_utf8 :: "lexeme list \<Rightarrow> int \<Rightarrow> int \<Rightarrow> token option" where
  "get_token_from_utf8 c line col =
     map_option (tok_at c) (List.find (\<lambda>i. lex_start (c ! i) = (line, col)) [0 ..< length c])"

section \<open>mark_tokens.py\<close>

definition matching_pairs_left :: "tok_kind \<times> string \<Rightarrow> (tok_kind \<times> string) option" where
  "matching_pairs_left = map_of
     [((OP, ''(''), (OP, '')'')), ((OP, ''[''), (OP, '']'')), ((OP, ''{''), (OP, ''}''))]"

definition matching_pairs_right :: "tok_kind \<times> string \<Rightarrow> (tok_kind \<times> string) option" where
  "matching_pairs_right = map_of
     [((OP, '')''), (OP, ''('')), ((OP, '']''), (OP, ''['')), ((OP, ''}''), (OP, ''{''))]"

definition tok_info :: "token \<Rightarrow> tok_kind \<times> string" where
  "tok_info tok = (tok_type tok, tok_string tok)"

subsection \<open>_visit_before_children\<close>

definition visit_before_children ::
  "mark_tokens \<Rightarrow> attrs \<Rightarrow> token option \<Rightarrow> token option \<times> token option" where
  "visit_before_children self a parent_token =
     (let tok = (case col_offset a of
                   None \<Rightarrow> None
                 | Some col \<Rightarrow> get_token_from_utf8 (code self) (lineno a) col)
      in (case tok of None \<Rightarrow> parent_token | Some t \<Rightarrow> Some t, tok))"

subsection \<open>_find_last_in_line\<close>

definition find_last_in_line :: "lexeme list \<Rightarrow> token \<Rightarrow> error + token" where
  "find_last_in_line c start_token =
     ebind (case find_token c start_token NEWLINE None False of
              Inl e \<Rightarrow> (if e = IndexError then find_token c start_token ENDMARKER None False
                        else Inl e)
            | Inr newline \<Rightarrow> Inr newline)
       (\<lambda>newline. prev_token c newline)"

subsection \<open>_iter_non_child_tokens\<close>

text \<open>
  The generator, run to its end: the tokens it yields, or the exception that ends it.
  \<open>tok\<close> is the loop variable of the same name.
\<close>

fun iter_non_child_tokens_from ::
  "lexeme list \<Rightarrow> token \<Rightarrow> token \<Rightarrow> node list \<Rightarrow> error + token list" where
  "iter_non_child_tokens_from c tok ltok [] = Inr (token_range c tok ltok)"
| "iter_non_child_tokens_from c tok ltok (n # ns) =
     (case first_token n of
        None \<Rightarrow> Inl AttributeError
      | Some nf \<Rightarrow>
         (case prev_token c nf of
            Inl e \<Rightarrow> Inl e
          | Inr p \<Rightarrow>
             (case last_token n of
                None \<Rightarrow> Inl AttributeError
              | Some nl \<Rightarrow>
                 if index nl \<ge> index ltok then Inr (token_range c tok p)
                 else (case next_token c nl of
                         Inl e \<Rightarrow> Inl e
                       | Inr tok' \<Rightarrow>
                          (case iter_non_child_tokens_from c tok' ltok ns of
                             Inl e \<Rightarrow> Inl e
                           | Inr rest \<Rightarrow> Inr (token_range c tok p @ rest))))))"

definition iter_non_child_tokens ::
  "lexeme list \<Rightarrow> token \<Rightarrow> token \<Rightarrow> node \<Rightarrow> error + token list" where
  "iter_non_child_tokens c ftok ltok n = iter_non_child_tokens_from c ftok ltok (children n)"

subsection \<open>_expand_to_matching_pairs\<close>

text \<open>
  One round of the scanning loop. The two lists are Python lists: \<^verbatim>\<open>append\<close> adds at
  the end, \<^verbatim>\<open>[-1]\<close> is the last element and \<^verbatim>\<open>pop()\<close> removes it.
\<close>

fun scan_step ::
  "(tok_kind \<times> string) list \<times> (tok_kind \<times> string) list \<Rightarrow> token \<Rightarrow>
   (tok_kind \<times> string) list \<times> (tok_kind \<times> string) list" where
  "scan_step (to_match_right, to_match_left) tok =
     (if to_match_right \<noteq> [] \<and> tok_info tok = last to_match_right
      then (butlast to_match_right, to_match_left)
      else (case matching_pairs_left (tok_info tok) of
              Some m \<Rightarrow> (to_match_right @ [m], to_match_left)
            | None \<Rightarrow>
               (case matching_pairs_right (tok_info tok) of
                  Some m \<Rightarrow> (to_match_right, to_match_left @ [m])
                | None \<Rightarrow> (to_match_right, to_match_left))))"

definition scan_tokens ::
  "token list \<Rightarrow> (tok_kind \<times> string) list \<times> (tok_kind \<times> string) list" where
  "scan_tokens toks = foldl scan_step ([], []) toks"

text \<open>The loop that extends \<^verbatim>\<open>last_token\<close>, over the matches in the order it is given them.\<close>

fun extend_last :: "lexeme list \<Rightarrow> token \<Rightarrow> (tok_kind \<times> string) list \<Rightarrow> error + token" where
  "extend_last c ltok [] = Inr ltok"
| "extend_last c ltok (m # ms) =
     (case next_token c ltok of
        Inl e \<Rightarrow> Inl e
      | Inr t \<Rightarrow>
         (case expect_token t (fst m) (Some (snd m)) of
            Inl e \<Rightarrow> Inl e
          | Inr _ \<Rightarrow> extend_last c t ms))"

text \<open>The loop that extends \<^verbatim>\<open>first_token\<close>, over the matches in the order it is given them.\<close>

fun extend_first :: "lexeme list \<Rightarrow> token \<Rightarrow> (tok_kind \<times> string) list \<Rightarrow> error + token" where
  "extend_first c ftok [] = Inr ftok"
| "extend_first c ftok (m # ms) =
     (case prev_token c ftok of
        Inl e \<Rightarrow> Inl e
      | Inr t \<Rightarrow>
         (case expect_token t (fst m) (Some (snd m)) of
            Inl e \<Rightarrow> Inl e
          | Inr _ \<Rightarrow> extend_first c t ms))"

definition expand_to_matching_pairs ::
  "lexeme list \<Rightarrow> token \<Rightarrow> token \<Rightarrow> node \<Rightarrow> error + (token \<times> token)" where
  "expand_to_matching_pairs c ftok ltok n =
     ebind (iter_non_child_tokens c ftok ltok n) (\<lambda>toks.
       case scan_tokens toks of (to_match_right, to_match_left) \<Rightarrow>
         ebind (extend_last c ltok (rev to_match_right)) (\<lambda>ltok'.
           ebind (extend_first c ftok to_match_left) (\<lambda>ftok'.
             Inr (ftok', ltok'))))"

subsection \<open>Node visitors\<close>

definition visit_default :: "node \<Rightarrow> token \<Rightarrow> token \<Rightarrow> error + (token \<times> token)" where
  "visit_default n ftok ltok = Inr (ftok, ltok)"

definition handle_comp ::
  "lexeme list \<Rightarrow> string \<Rightarrow> node \<Rightarrow> token \<Rightarrow> token \<Rightarrow> error + (token \<times> token)" where
  "handle_comp c open_brace n ftok ltok =
     ebind (prev_token c ftok) (\<lambda>before_tok.
       ebind (expect_token before_tok OP (Some open_brace)) (\<lambda>_. Inr (before_tok, ltok)))"

definition visit_listcomp ::
  "lexeme list \<Rightarrow> node \<Rightarrow> token \<Rightarrow> token \<Rightarrow> error + (token \<times> token)" where
  "visit_listcomp c n ftok ltok = handle_comp c ''['' n ftok ltok"

definition visit_setcomp ::
  "lexeme list \<Rightarrow> node \<Rightarrow> token \<Rightarrow> token \<Rightarrow> error + (token \<times> token)" where
  "visit_setcomp c n ftok ltok = handle_comp c ''{'' n ftok ltok"

definition visit_dictcomp ::
  "lexeme list \<Rightarrow> node \<Rightarrow> token \<Rightarrow> token \<Rightarrow> error + (token \<times> token)" where
  "visit_dictcomp c n ftok ltok = handle_comp c ''{'' n ftok ltok"

definition visit_comprehension ::
  "lexeme list \<Rightarrow> node \<Rightarrow> token \<Rightarrow> token \<Rightarrow> error + (token \<times> token)" where
  "visit_comprehension c n ftok ltok =
     ebind (find_token c ftok NAME (Some ''for'') True) (\<lambda>first. Inr (first, ltok))"

definition handle_attr ::
  "lexeme list \<Rightarrow> node \<Rightarrow> token \<Rightarrow> token \<Rightarrow> error + (token \<times> token)" where
  "handle_attr c n ftok ltok =
     ebind (find_token c ltok OP (Some ''.'') False) (\<lambda>dot.
       ebind (next_token c dot) (\<lambda>name.
         ebind (expect_token name NAME None) (\<lambda>_. Inr (ftok, name))))"

definition visit_call ::
  "lexeme list \<Rightarrow> node \<Rightarrow> token \<Rightarrow> token \<Rightarrow> error + (token \<times> token)" where
  "visit_call c n ftok ltok =
     ebind (find_token c ltok OP (Some '')'') False) (\<lambda>t. Inr (ftok, t))"

definition visit_subscript ::
  "lexeme list \<Rightarrow> node \<Rightarrow> token \<Rightarrow> token \<Rightarrow> error + (token \<times> token)" where
  "visit_subscript c n ftok ltok =
     ebind (find_token c ltok OP (Some '']'') False) (\<lambda>t. Inr (ftok, t))"

text \<open>The only handler in the visitors: an \<^verbatim>\<open>IndexError\<close> of \<^verbatim>\<open>next_token\<close> is passed over.\<close>

definition visit_tuple ::
  "lexeme list \<Rightarrow> node \<Rightarrow> token \<Rightarrow> token \<Rightarrow> error + (token \<times> token)" where
  "visit_tuple c n ftok ltok =
     (case next_token c ltok of
        Inl e \<Rightarrow> (if e = IndexError then Inr (ftok, ltok) else Inl e)
      | Inr maybe_comma \<Rightarrow>
         Inr (ftok, if match_token maybe_comma OP (Some '','') then maybe_comma else ltok))"

text \<open>
  The \<^verbatim>\<open>while\<close> loop of \<^verbatim>\<open>visit_num\<close>. Nothing in its text bounds the number of rounds,
  so it is a partial function: \<open>None\<close> is a run that never leaves the loop.
\<close>

partial_function (option) visit_num_loop :: "lexeme list \<Rightarrow> token \<Rightarrow> (error + token) option"
  where
  "visit_num_loop c ltok =
     (if match_token ltok OP None
      then (case next_token c ltok of
              Inl e \<Rightarrow> Some (Inl e)
            | Inr t \<Rightarrow> visit_num_loop c t)
      else Some (Inr ltok))"

declare visit_num_loop.simps [code]

definition visit_num ::
  "lexeme list \<Rightarrow> node \<Rightarrow> token \<Rightarrow> token \<Rightarrow> error + (token \<times> token)" where
  "visit_num c n ftok ltok =
     (case visit_num_loop c ltok of
        None \<Rightarrow> Inl Diverges
      | Some r \<Rightarrow> ebind r (\<lambda>ltok'. Inr (ftok, ltok')))"

definition visit_keyword ::
  "lexeme list \<Rightarrow> node \<Rightarrow> token \<Rightarrow> token \<Rightarrow> error + (token \<times> token)" where
  "visit_keyword c n ftok ltok =
     (case arg (attrs n) of
        None \<Rightarrow> Inr (ftok, ltok)
      | Some a \<Rightarrow>
         ebind (find_token c ftok OP (Some ''='') True) (\<lambda>equals.
           ebind (prev_token c equals) (\<lambda>name.
             ebind (expect_token name NAME (Some a)) (\<lambda>_. Inr (name, ltok)))))"

text \<open>
  Modelled from the spec: \<^verbatim>\<open>util.NodeMethods.get\<close>, which is not in the source tree: the
  "mapping from node kind to a pure function" with "a default no-op". The entries are the
  \<^verbatim>\<open>visit_\<close> methods that the class body of \<^verbatim>\<open>MarkTokens\<close> defines; the two under
  \<^verbatim>\<open>if six.PY2\<close> exist only there.
\<close>

definition methods_get ::
  "mark_tokens \<Rightarrow> node_class \<Rightarrow> node \<Rightarrow> token \<Rightarrow> token \<Rightarrow> error + (token \<times> token)" where
  "methods_get self k =
     (case k of
        ListComp \<Rightarrow> visit_listcomp (code self)
      | SetComp \<Rightarrow> (if py2 self then visit_setcomp (code self) else visit_default)
      | DictComp \<Rightarrow> (if py2 self then visit_dictcomp (code self) else visit_default)
      | Comprehension \<Rightarrow> visit_comprehension (code self)
      | Attribute \<Rightarrow> handle_attr (code self)
      | AssignAttr \<Rightarrow> handle_attr (code self)
      | DelAttr \<Rightarrow> handle_attr (code self)
      | Call \<Rightarrow> visit_call (code self)
      | Subscript \<Rightarrow> visit_subscript (code self)
      | Tuple \<Rightarrow> visit_tuple (code self)
      | Num \<Rightarrow> visit_num (code self)
      | Keyword \<Rightarrow> visit_keyword (code self)
      | OtherStmt _ \<Rightarrow> visit_default
      | OtherNode _ \<Rightarrow> visit_default)"

subsection \<open>_visit_after_children\<close>

text \<open>
  The loop over the children (lines 63 to 69): \<open>first\<close> and \<open>lst\<close> are the variables
  \<^verbatim>\<open>first\<close> and \<^verbatim>\<open>last\<close>, \<open>None\<close> as in the source.
\<close>

fun combine_children ::
  "token option \<Rightarrow> token option \<Rightarrow> node list \<Rightarrow> error + (token option \<times> token option)" where
  "combine_children first lst [] = Inr (first, lst)"
| "combine_children first lst (child # rest) =
     (case first_token child of
        None \<Rightarrow> Inl AttributeError
      | Some cf \<Rightarrow>
         (case last_token child of
            None \<Rightarrow> Inl AttributeError
          | Some cl \<Rightarrow>
             combine_children
               (case first of
                  None \<Rightarrow> Some cf
                | Some f \<Rightarrow> if index cf < index f then Some cf else Some f)
               (case lst of
                  None \<Rightarrow> Some cl
                | Some l \<Rightarrow> if index cl > index l then Some cl else Some l)
               rest))"

text \<open>
  Lines 63 to 76: the loop, then the two defaults. When no token is left for \<open>first\<close>,
  \<^verbatim>\<open>None\<close> reaches the accessor, which raises on it.
\<close>

definition combine_range ::
  "node \<Rightarrow> token option \<Rightarrow> token option \<Rightarrow> error + (token \<times> token)" where
  "combine_range n parent_token tok =
     ebind (combine_children tok None (children n)) (\<lambda>(first, last).
       case (case first of None \<Rightarrow> parent_token | Some f \<Rightarrow> Some f) of
         None \<Rightarrow> Inl AttributeError
       | Some f \<Rightarrow> Inr (f, case last of None \<Rightarrow> f | Some l \<Rightarrow> l))"

text \<open>Lines 63 to 80: the range that is handed to \<^verbatim>\<open>_expand_to_matching_pairs\<close>.\<close>

definition preliminary_range ::
  "mark_tokens \<Rightarrow> node \<Rightarrow> token option \<Rightarrow> token option \<Rightarrow> error + (token \<times> token)" where
  "preliminary_range self n parent_token tok =
     ebind (combine_range n parent_token tok) (\<lambda>(first, last).
       if is_stmt (cls (attrs n))
       then ebind (find_last_in_line (code self) last) (\<lambda>last'. Inr (first, last'))
       else Inr (first, last))"

definition visit_after_children ::
  "mark_tokens \<Rightarrow> node \<Rightarrow> token option \<Rightarrow> token option \<Rightarrow> error + node" where
  "visit_after_children self n parent_token tok =
     ebind (preliminary_range self n parent_token tok) (\<lambda>(first, last).
       ebind (expand_to_matching_pairs (code self) first last n) (\<lambda>(first, last).
         ebind (methods_get self (cls (attrs n)) n first last) (\<lambda>(nfirst, nlast).
           ebind (if (nfirst, nlast) \<noteq> (first, last)
                  then expand_to_matching_pairs (code self) nfirst nlast n
                  else Inr (nfirst, nlast)) (\<lambda>(nfirst, nlast).
             Inr (Node (attrs n) (children n) (Some nfirst) (Some nlast))))))"

subsection \<open>visit_tree\<close>

text \<open>
  Modelled from the spec: \<^verbatim>\<open>util.visit_tree\<close>, which is not in the source tree: "a
  depth-first traversal visiting every node exactly once, calling before on arrival and
  after on departure after all children have been visited and processed"; the first value
  that \<open>before\<close> returns "is passed unchanged to every direct child's before call". The
  root is visited with no parent token, and the first exception ends the traversal.
\<close>

fun visit_node :: "mark_tokens \<Rightarrow> token option \<Rightarrow> node \<Rightarrow> error + node"
  and visit_nodes :: "mark_tokens \<Rightarrow> token option \<Rightarrow> node list \<Rightarrow> error + node list" where
  "visit_node self parent_token (Node a cs f l) =
     (case visit_nodes self (fst (visit_before_children self a parent_token)) cs of
        Inl e \<Rightarrow> Inl e
      | Inr cs' \<Rightarrow>
         visit_after_children self (Node a cs' f l) parent_token
           (snd (visit_before_children self a parent_token)))"
| "visit_nodes self pvalue [] = Inr []"
| "visit_nodes self pvalue (n # ns) =
     (case visit_node self pvalue n of
        Inl e \<Rightarrow> Inl e
      | Inr n' \<Rightarrow>
         (case visit_nodes self pvalue ns of
            Inl e \<Rightarrow> Inl e
          | Inr ns' \<Rightarrow> Inr (n' # ns')))"

definition visit_tree :: "mark_tokens \<Rightarrow> node \<Rightarrow> error + node" where
  "visit_tree self n = visit_node self None n"

section \<open>Properties of marked trees\<close>




text \<open>A result that is a range is at least as wide as the range \<open>(f, l)\<close>.\<close>

definition widens :: "token \<Rightarrow> token \<Rightarrow> error + (token \<times> token) \<Rightarrow> bool" where
  "widens f l r =
     (case r of
        Inl e \<Rightarrow> True
      | Inr (f', l') \<Rightarrow> index f' \<le> index f \<and> index l \<le> index l')"

text \<open>Both fields of the node are assigned.\<close>

definition marked :: "node \<Rightarrow> bool" where
  "marked n = (first_token n \<noteq> None \<and> last_token n \<noteq> None)"

text \<open>
  The tokens among which the combiner chooses \<open>first\<close>: the node's own token when it has
  one, and the first tokens of its children.
\<close>

definition first_candidates :: "token option \<Rightarrow> node list \<Rightarrow> token list" where
  "first_candidates tok cs =
     (case tok of None \<Rightarrow> [] | Some t \<Rightarrow> [t]) @ List.map_filter first_token cs"

text \<open>The tokens among which the combiner chooses \<open>last\<close>: the last tokens of the children.\<close>

definition last_candidates :: "node list \<Rightarrow> token list" where
  "last_candidates cs = List.map_filter last_token cs"

text \<open>
  The expansion with the two lists taken in the orders that the specification states:
  "for each entry left in the needs closer list, in the order encountered", and "for each
  entry in the needs opener list, in reverse encounter order". It differs from
  \<open>expand_to_matching_pairs\<close> only in the two orders.
\<close>

definition expand_in_stated_order ::
  "lexeme list \<Rightarrow> token \<Rightarrow> token \<Rightarrow> node \<Rightarrow> error + (token \<times> token)" where
  "expand_in_stated_order c ftok ltok n =
     ebind (iter_non_child_tokens c ftok ltok n) (\<lambda>toks.
       case scan_tokens toks of (to_match_right, to_match_left) \<Rightarrow>
         ebind (extend_last c ltok to_match_right) (\<lambda>ltok'.
           ebind (extend_first c ftok (rev to_match_left)) (\<lambda>ftok'.
             Inr (ftok', ltok'))))"

text \<open>The token \<open>t\<close> lies in the range that the child \<open>ch\<close> was given.\<close>

definition in_child_range :: "node \<Rightarrow> token \<Rightarrow> bool" where
  "in_child_range ch t =
     (case (first_token ch, last_token ch) of
        (Some cf, Some cl) \<Rightarrow> index cf \<le> index t \<and> index t \<le> index cl
      | _ \<Rightarrow> False)"

text \<open>
  The gap tokens as the docstring of \<^verbatim>\<open>_iter_non_child_tokens\<close> and the specification
  describe them: "all tokens in [first_token, last_token] range that do not belong to any
  children of node".
\<close>

definition gap_tokens :: "lexeme list \<Rightarrow> token \<Rightarrow> token \<Rightarrow> node \<Rightarrow> token list" where
  "gap_tokens c ftok ltok n =
     filter (\<lambda>t. \<not> list_ex (\<lambda>ch. in_child_range ch t) (children n)) (token_range c ftok ltok)"

text \<open>How many tokens of the range from \<open>ftok\<close> to \<open>ltok\<close> are the delimiter \<open>k\<close>.\<close>

definition count_delimiter ::
  "lexeme list \<Rightarrow> token \<Rightarrow> token \<Rightarrow> tok_kind \<times> string \<Rightarrow> nat" where
  "count_delimiter c ftok ltok k = length (filter (\<lambda>t. tok_info t = k) (token_range c ftok ltok))"

text \<open>
  The calls that the tree walk makes below a node: every node of the tree, paired with
  the parent token it is visited with.
\<close>

fun visits :: "mark_tokens \<Rightarrow> token option \<Rightarrow> node \<Rightarrow> (token option \<times> node) list" where
  "visits self p (Node a cs f l) =
     (p, Node a cs f l)
       # concat (map (visits self (fst (visit_before_children self a p))) cs)"

text \<open>The token \<open>t\<close> is a token of the stream: the one the stream holds at its index.\<close>

definition stream_tok :: "lexeme list \<Rightarrow> token \<Rightarrow> bool" where
  "stream_tok c t = (index t < length c \<and> t = tok_at c (index t))"





text \<open>
  The scanning loop of \<^verbatim>\<open>_iter_non_child_tokens\<close> goes on to the next child after \<open>n\<close>:
  both steps around \<open>n\<close> succeed and \<open>n\<close> ends before \<open>ltok\<close>.
\<close>

definition passes_child :: "lexeme list \<Rightarrow> token \<Rightarrow> node \<Rightarrow> bool" where
  "passes_child c ltok n =
     (case (first_token n, last_token n) of
        (Some nf, Some nl) \<Rightarrow>
          \<not> isl (prev_token c nf) \<and> index nl < index ltok \<and> \<not> isl (next_token c nl)
      | _ \<Rightarrow> False)"

section \<open>Example inputs\<close>

text \<open>The statement \<^verbatim>\<open>return f(x)\<close>, its tree, and the tree as the pass marks it.\<close>

definition call_code :: "lexeme list" where
  "call_code =
     [Lexeme NAME ''return'' (1, 0), Lexeme NAME ''f'' (1, 7), Lexeme OP ''('' (1, 8),
      Lexeme NAME ''x'' (1, 9), Lexeme OP '')'' (1, 10), Lexeme NEWLINE [] (1, 11),
      Lexeme ENDMARKER [] (2, 0)]"

definition call_self :: mark_tokens where
  "call_self = \<lparr>code = call_code, py2 = False\<rparr>"

definition call_tree :: node where
  "call_tree =
     Node (Attrs (OtherStmt ''Return'') 1 (Some 0) None)
       [Node (Attrs Call 1 (Some 7) None)
          [Node (Attrs (OtherNode ''Name'') 1 (Some 7) None) [] None None,
           Node (Attrs (OtherNode ''Name'') 1 (Some 9) None) [] None None]
          None None]
       None None"

definition call_children :: "node list" where
  "call_children =
     [Node (Attrs (OtherNode ''Name'') 1 (Some 7) None) []
        (Some (Token NAME ''f'' 1)) (Some (Token NAME ''f'' 1)),
      Node (Attrs (OtherNode ''Name'') 1 (Some 9) None) []
        (Some (Token NAME ''x'' 3)) (Some (Token NAME ''x'' 3))]"

definition call_node :: node where
  "call_node =
     Node (Attrs Call 1 (Some 7) None) call_children
       (Some (Token NAME ''f'' 1)) (Some (Token OP '')'' 4))"

definition call_marked :: node where
  "call_marked =
     Node (Attrs (OtherStmt ''Return'') 1 (Some 0) None) [call_node]
       (Some (Token NAME ''return'' 0)) (Some (Token OP '')'' 4))"





text \<open>The statement \<^verbatim>\<open>return -1\<close> with the literal as one node at the sign.\<close>

definition num_code :: "lexeme list" where
  "num_code =
     [Lexeme NAME ''return'' (1, 0), Lexeme OP ''-'' (1, 7), Lexeme NUMBER ''1'' (1, 8),
      Lexeme NEWLINE [] (1, 9), Lexeme ENDMARKER [] (2, 0)]"

definition num_tree :: node where
  "num_tree =
     Node (Attrs (OtherStmt ''Return'') 1 (Some 0) None)
       [Node (Attrs Num 1 (Some 7) None) [] None None]
       None None"

definition num_marked :: node where
  "num_marked =
     Node (Attrs (OtherStmt ''Return'') 1 (Some 0) None)
       [Node (Attrs Num 1 (Some 7) None) []
          (Some (Token OP ''-'' 1)) (Some (Token NUMBER ''1'' 2))]
       (Some (Token NAME ''return'' 0)) (Some (Token NUMBER ''1'' 2))"

text \<open>
  The expression \<^verbatim>\<open>({a: (b), c: d})\<close>. The children of the \<^verbatim>\<open>Dict\<close> node are listed as
  \<^verbatim>\<open>ast.iter_child_nodes\<close> lists them: the keys, then the values.
\<close>

definition dict_code :: "lexeme list" where
  "dict_code =
     [Lexeme OP ''('' (1, 0), Lexeme OP ''{'' (1, 1), Lexeme NAME ''a'' (1, 2),
      Lexeme OP '':'' (1, 3), Lexeme OP ''('' (1, 5), Lexeme NAME ''b'' (1, 6),
      Lexeme OP '')'' (1, 7), Lexeme OP '','' (1, 8), Lexeme NAME ''c'' (1, 10),
      Lexeme OP '':'' (1, 11), Lexeme NAME ''d'' (1, 13), Lexeme OP ''}'' (1, 14),
      Lexeme OP '')'' (1, 15), Lexeme NEWLINE [] (1, 16), Lexeme ENDMARKER [] (2, 0)]"

definition dict_self :: mark_tokens where
  "dict_self = \<lparr>code = dict_code, py2 = False\<rparr>"

definition dict_tree :: node where
  "dict_tree =
     Node (Attrs (OtherNode ''Dict'') 1 (Some 1) None)
       [Node (Attrs (OtherNode ''Name'') 1 (Some 2) None) [] None None,
        Node (Attrs (OtherNode ''Name'') 1 (Some 10) None) [] None None,
        Node (Attrs (OtherNode ''Name'') 1 (Some 6) None) [] None None,
        Node (Attrs (OtherNode ''Name'') 1 (Some 13) None) [] None None]
       None None"

definition name_a :: node where
  "name_a = Node (Attrs (OtherNode ''Name'') 1 (Some 2) None) []
     (Some (Token NAME ''a'' 2)) (Some (Token NAME ''a'' 2))"

definition name_b :: node where
  "name_b = Node (Attrs (OtherNode ''Name'') 1 (Some 6) None) []
     (Some (Token NAME ''b'' 5)) (Some (Token NAME ''b'' 5))"

definition name_c :: node where
  "name_c = Node (Attrs (OtherNode ''Name'') 1 (Some 10) None) []
     (Some (Token NAME ''c'' 8)) (Some (Token NAME ''c'' 8))"

definition name_d :: node where
  "name_d = Node (Attrs (OtherNode ''Name'') 1 (Some 13) None) []
     (Some (Token NAME ''d'' 10)) (Some (Token NAME ''d'' 10))"

text \<open>The \<^verbatim>\<open>Dict\<close> node when its children are marked and it is not.\<close>

definition dict_node :: node where
  "dict_node =
     Node (Attrs (OtherNode ''Dict'') 1 (Some 1) None) [name_a, name_c, name_b, name_d]
       None None"

text \<open>The same node with its children in the order of the source text.\<close>

definition dict_node_sorted :: node where
  "dict_node_sorted =
     Node (Attrs (OtherNode ''Dict'') 1 (Some 1) None) [name_a, name_b, name_c, name_d]
       None None"

definition dict_marked :: node where
  "dict_marked =
     Node (Attrs (OtherNode ''Dict'') 1 (Some 1) None) [name_a, name_c, name_b, name_d]
       (Some (Token OP ''('' 0)) (Some (Token OP ''}'' 11))"

text \<open>The statement \<^verbatim>\<open>pass\<close> at the end of a text with no newline after it.\<close>

definition pass_code :: "lexeme list" where
  "pass_code = [Lexeme NAME ''pass'' (1, 0), Lexeme ENDMARKER [] (1, 4)]"

definition pass_node :: node where
  "pass_node = Node (Attrs (OtherStmt ''Pass'') 1 (Some 0) None) [] None None"

text \<open>The expression \<^verbatim>\<open>([x])\<close> and the node of \<^verbatim>\<open>x\<close>, which has no children.\<close>

definition nest_code :: "lexeme list" where
  "nest_code =
     [Lexeme OP ''('' (1, 0), Lexeme OP ''['' (1, 1), Lexeme NAME ''x'' (1, 2),
      Lexeme OP '']'' (1, 3), Lexeme OP '')'' (1, 4)]"

definition nest_leaf :: node where
  "nest_leaf = Node (Attrs (OtherNode ''Name'') 1 (Some 2) None) [] None None"

text \<open>
  The tokens \<^verbatim>\<open>return x, y\<close> with nothing after them, and the tuple node of \<^verbatim>\<open>x, y\<close>.
\<close>

definition tuple_code :: "lexeme list" where
  "tuple_code =
     [Lexeme NAME ''return'' (1, 0), Lexeme NAME ''x'' (1, 7), Lexeme OP '','' (1, 8),
      Lexeme NAME ''y'' (1, 10)]"

definition tuple_tree :: node where
  "tuple_tree =
     Node (Attrs Tuple 1 (Some 7) None)
       [Node (Attrs (OtherNode ''Name'') 1 (Some 7) None) [] None None,
        Node (Attrs (OtherNode ''Name'') 1 (Some 10) None) [] None None]
       None None"

definition tuple_marked :: node where
  "tuple_marked =
     Node (Attrs Tuple 1 (Some 7) None)
       [Node (Attrs (OtherNode ''Name'') 1 (Some 7) None) []
          (Some (Token NAME ''x'' 1)) (Some (Token NAME ''x'' 1)),
        Node (Attrs (OtherNode ''Name'') 1 (Some 10) None) []
          (Some (Token NAME ''y'' 3)) (Some (Token NAME ''y'' 3))]
       (Some (Token NAME ''x'' 1)) (Some (Token NAME ''y'' 3))"

text \<open>
  A stream of the one token \<^verbatim>\<open>x\<close>, that token, and nodes at it: a node without
  children, a list comprehension, a keyword argument, a statement, a node with one marked
  child, and a module whose only child is the list comprehension.
\<close>

definition one_code :: "lexeme list" where
  "one_code = [Lexeme NAME ''x'' (1, 0)]"

definition one_tok :: token where
  "one_tok = Token NAME ''x'' 0"

definition one_leaf :: node where
  "one_leaf = Node (Attrs (OtherNode ''Name'') 1 (Some 0) None) [] None None"

definition one_comp :: node where
  "one_comp = Node (Attrs ListComp 1 (Some 0) None) [] None None"

definition one_keyword :: node where
  "one_keyword = Node (Attrs Keyword 1 (Some 0) (Some ''k'')) [] None None"

definition one_stmt :: node where
  "one_stmt = Node (Attrs (OtherStmt ''Expr'') 1 (Some 0) None) [] None None"

definition one_parent :: node where
  "one_parent =
     Node (Attrs (OtherNode ''Expr'') 1 (Some 0) None)
       [Node (Attrs (OtherNode ''Name'') 1 (Some 0) None) [] (Some one_tok) (Some one_tok)]
       None None"

definition one_module :: node where
  "one_module = Node (Attrs (OtherNode ''Module'') 0 None None) [one_comp] None None"








text \<open>
  The tokens \<^verbatim>\<open>([x]\<close>, where the outer bracket is never closed: an expression node at
  the first bracket with the node of \<^verbatim>\<open>x\<close> as its child.
\<close>

definition open_code :: "lexeme list" where
  "open_code =
     [Lexeme OP ''('' (1, 0), Lexeme OP ''['' (1, 1), Lexeme NAME ''x'' (1, 2),
      Lexeme OP '']'' (1, 3)]"

definition open_child :: node where
  "open_child =
     Node (Attrs (OtherNode ''Name'') 1 (Some 2) None) []
       (Some (Token NAME ''x'' 2)) (Some (Token NAME ''x'' 2))"

definition open_tree :: node where
  "open_tree =
     Node (Attrs (OtherNode ''Expr'') 1 (Some 0) None)
       [Node (Attrs (OtherNode ''Name'') 1 (Some 2) None) [] None None]
       None None"

text \<open>Three names in a row, and marked nodes at the second and at the third.\<close>

definition names_code :: "lexeme list" where
  "names_code = [Lexeme NAME ''x'' (1, 0), Lexeme NAME ''y'' (1, 2), Lexeme NAME ''z'' (1, 4)]"

definition names_x :: node where
  "names_x =
     Node (Attrs (OtherNode ''Name'') 1 (Some 0) None) []
       (Some (Token NAME ''x'' 0)) (Some (Token NAME ''x'' 0))"

definition names_y :: node where
  "names_y =
     Node (Attrs (OtherNode ''Name'') 1 (Some 2) None) []
       (Some (Token NAME ''y'' 1)) (Some (Token NAME ''y'' 1))"

definition names_z :: node where
  "names_z =
     Node (Attrs (OtherNode ''Name'') 1 (Some 4) None) []
       (Some (Token NAME ''z'' 2)) (Some (Token NAME ''z'' 2))"

section \<open>Lemmas\<close>

subsection \<open>The accessor and the extension steps\<close>

lemma ebind_Inr_iff: "ebind m f = Inr y \<longleftrightarrow> (\<exists>x. m = Inr x \<and> f x = Inr y)"
  by (cases m) auto

lemma ebind_Inl_iff: "ebind m f = Inl e \<longleftrightarrow> (m = Inl e \<or> (\<exists>x. m = Inr x \<and> f x = Inl e))"
  by (cases m) auto

lemma index_tok_at [simp]: "index (tok_at c i) = i"
  by (simp add: tok_at_def)

lemma next_token_index: "next_token c t = Inr t' \<Longrightarrow> index t' = Suc (index t)"
  by (auto simp: next_token_def split: if_splits)

lemma prev_token_index: "prev_token c t = Inr t' \<Longrightarrow> Suc (index t') = index t"
  by (auto simp: prev_token_def split: if_splits)

lemma find_SomeD: "List.find P xs = Some x \<Longrightarrow> x \<in> set xs \<and> P x"
  by (induction xs) (auto split: if_splits)

lemma find_token_forward: "find_token c t ty s False = Inr t' \<Longrightarrow> index t \<le> index t'"
  by (auto simp: find_token_def split: option.splits if_splits dest!: find_SomeD)

lemma find_token_reverse: "find_token c t ty s True = Inr t' \<Longrightarrow> index t' \<le> index t"
  by (auto simp: find_token_def split: option.splits if_splits dest!: find_SomeD)

lemma find_token_error: "find_token c t ty s r = Inl e \<Longrightarrow> e = IndexError"
  by (auto simp: find_token_def split: option.splits)

lemma extend_last_index: "extend_last c t ms = Inr t' \<Longrightarrow> index t' = index t + length ms"
  by (induction ms arbitrary: t) (auto split: sum.splits dest: next_token_index)

lemma extend_first_index: "extend_first c t ms = Inr t' \<Longrightarrow> index t' + length ms = index t"
  by (induction ms arbitrary: t) (auto split: sum.splits dest: prev_token_index)

lemma expand_widens:
  assumes "expand_to_matching_pairs c f l n = Inr (f', l')"
  shows "index f' \<le> index f \<and> index l \<le> index l'"
proof -
  from assms obtain toks where "iter_non_child_tokens c f l n = Inr toks"
    and r: "(case scan_tokens toks of (to_match_right, to_match_left) \<Rightarrow>
         ebind (extend_last c l (rev to_match_right)) (\<lambda>ltok'.
           ebind (extend_first c f to_match_left) (\<lambda>ftok'. Inr (ftok', ltok')))) = Inr (f', l')"
    unfolding expand_to_matching_pairs_def ebind_Inr_iff by blast
  obtain R L where "scan_tokens toks = (R, L)" by (cases "scan_tokens toks")
  with r have "extend_last c l (rev R) = Inr l'" "extend_first c f L = Inr f'"
    by (auto simp: ebind_Inr_iff)
  then show ?thesis
    by (auto dest!: extend_last_index extend_first_index)
qed

lemma visit_num_loop_returns: "\<exists>r. visit_num_loop c t = Some r"
proof (induction "length c - index t" arbitrary: t rule: less_induct)
  case less
  show ?case
  proof (cases "match_token t OP None")
    case False
    then show ?thesis by (subst visit_num_loop.simps) simp
  next
    case True
    show ?thesis
    proof (cases "next_token c t")
      case (Inl e)
      with True show ?thesis by (subst visit_num_loop.simps) simp
    next
      case (Inr t')
      then have "length c - index t' < length c - index t"
        by (auto simp: next_token_def split: if_splits)
      from less[OF this] obtain r where "visit_num_loop c t' = Some r" by blast
      with True Inr show ?thesis by (subst visit_num_loop.simps) simp
    qed
  qed
qed

lemma visit_num_loop_widens: "visit_num_loop c t = Some (Inr t') \<Longrightarrow> index t \<le> index t'"
proof (induction "length c - index t" arbitrary: t rule: less_induct)
  case less
  show ?case
  proof (cases "match_token t OP None")
    case False
    with less.prems show ?thesis by (subst (asm) visit_num_loop.simps) simp
  next
    case True
    show ?thesis
    proof (cases "next_token c t")
      case (Inl e)
      with True less.prems show ?thesis by (subst (asm) visit_num_loop.simps) simp
    next
      case (Inr t'')
      then have lt: "length c - index t'' < length c - index t" and ix: "index t'' = Suc (index t)"
        by (auto simp: next_token_def split: if_splits)
      from True Inr less.prems have "visit_num_loop c t'' = Some (Inr t')"
        by (subst (asm) visit_num_loop.simps) simp
      from less.hyps[OF lt this] ix show ?thesis by simp
    qed
  qed
qed

lemma visit_num_loop_error: "visit_num_loop c t = Some (Inl e) \<Longrightarrow> e = IndexError"
proof (induction "length c - index t" arbitrary: t rule: less_induct)
  case less
  show ?case
  proof (cases "match_token t OP None")
    case False
    with less.prems show ?thesis by (subst (asm) visit_num_loop.simps) simp
  next
    case True
    show ?thesis
    proof (cases "next_token c t")
      case (Inl e')
      with True less.prems show ?thesis
        by (subst (asm) visit_num_loop.simps) (auto simp: next_token_def split: if_splits)
    next
      case (Inr t'')
      then have lt: "length c - index t'' < length c - index t"
        by (auto simp: next_token_def split: if_splits)
      from True Inr less.prems have "visit_num_loop c t'' = Some (Inl e)"
        by (subst (asm) visit_num_loop.simps) simp
      from less.hyps[OF lt this] show ?thesis .
    qed
  qed
qed

lemma methods_get_widens:
  "methods_get self k n f l = Inr (f', l') \<Longrightarrow> index f' \<le> index f \<and> index l \<le> index l'"
  apply (cases k)
  apply (auto simp: methods_get_def visit_default_def visit_listcomp_def visit_setcomp_def visit_dictcomp_def
       handle_comp_def visit_comprehension_def handle_attr_def visit_call_def visit_subscript_def
       visit_tuple_def visit_num_def visit_keyword_def ebind_Inr_iff
       split: if_splits sum.splits option.splits
       dest!: prev_token_index next_token_index find_token_forward find_token_reverse visit_num_loop_widens)
  done

subsection \<open>The range combiner\<close>

lemma combine_children_bounds:
  "combine_children first lst cs = Inr (f', l') \<Longrightarrow>
     (\<forall>x. first = Some x \<longrightarrow> (\<exists>y. f' = Some y \<and> index y \<le> index x)) \<and>
     (\<forall>x. lst = Some x \<longrightarrow> (\<exists>y. l' = Some y \<and> index x \<le> index y)) \<and>
     (\<forall>c\<in>set cs. \<exists>cf cl y z. first_token c = Some cf \<and> last_token c = Some cl \<and>
         f' = Some y \<and> index y \<le> index cf \<and> l' = Some z \<and> index cl \<le> index z)"
proof (induction first lst cs rule: combine_children.induct)
  case (1 first lst)
  then show ?case by auto
next
  case (2 first lst child rest)
  from "2.prems" obtain cf cl where cf: "first_token child = Some cf" and cl: "last_token child = Some cl"
    by (auto split: option.splits)
  let ?f = "(case first of None \<Rightarrow> Some cf | Some f \<Rightarrow> if index cf < index f then Some cf else Some f)"
  let ?l = "(case lst of None \<Rightarrow> Some cl | Some l \<Rightarrow> if index cl > index l then Some cl else Some l)"
  from "2.prems" cf cl have rec: "combine_children ?f ?l rest = Inr (f', l')" by simp
  note IH = "2.IH"[OF cf cl rec]
  have "\<exists>f0. ?f = Some f0 \<and> index f0 \<le> index cf \<and> (\<forall>x. first = Some x \<longrightarrow> index f0 \<le> index x)"
    by (cases first) auto
  then obtain f0 where f0: "?f = Some f0" "index f0 \<le> index cf" "\<forall>x. first = Some x \<longrightarrow> index f0 \<le> index x"
    by blast
  have "\<exists>l0. ?l = Some l0 \<and> index cl \<le> index l0 \<and> (\<forall>x. lst = Some x \<longrightarrow> index x \<le> index l0)"
    by (cases lst) auto
  then obtain l0 where l0: "?l = Some l0" "index cl \<le> index l0" "\<forall>x. lst = Some x \<longrightarrow> index x \<le> index l0"
    by blast
  from IH f0 obtain y where y: "f' = Some y" "index y \<le> index f0" by auto
  from IH l0 obtain z where z: "l' = Some z" "index l0 \<le> index z" by auto
  show ?case
  proof (intro conjI allI impI ballI)
    fix x assume "first = Some x"
    with f0 y show "\<exists>y. f' = Some y \<and> index y \<le> index x" by force
  next
    fix x assume "lst = Some x"
    with l0 z show "\<exists>y. l' = Some y \<and> index x \<le> index y" by force
  next
    fix c assume "c \<in> set (child # rest)"
    then consider "c = child" | "c \<in> set rest" by auto
    then show "\<exists>cf cl y z. first_token c = Some cf \<and> last_token c = Some cl \<and>
         f' = Some y \<and> index y \<le> index cf \<and> l' = Some z \<and> index cl \<le> index z"
    proof cases
      case 1
      with cf cl y z f0 l0 show ?thesis by force
    next
      case 2
      with IH show ?thesis by blast
    qed
  qed
qed

lemma combine_children_last_from:
  "combine_children first lst cs = Inr (f', Some z) \<Longrightarrow>
     lst = Some z \<or> (\<exists>c\<in>set cs. last_token c = Some z)"
proof (induction first lst cs rule: combine_children.induct)
  case (1 first lst)
  then show ?case by auto
next
  case (2 first lst child rest)
  from "2.prems" obtain cf cl where cf: "first_token child = Some cf" and cl: "last_token child = Some cl"
    by (auto split: option.splits)
  let ?f = "(case first of None \<Rightarrow> Some cf | Some f \<Rightarrow> if index cf < index f then Some cf else Some f)"
  let ?l = "(case lst of None \<Rightarrow> Some cl | Some l \<Rightarrow> if index cl > index l then Some cl else Some l)"
  from "2.prems" cf cl have rec: "combine_children ?f ?l rest = Inr (f', Some z)" by simp
  from "2.IH"[OF cf cl rec] consider "?l = Some z" | "\<exists>c\<in>set rest. last_token c = Some z" by blast
  then show ?case
  proof cases
    case 1
    then show ?thesis using cl by (cases lst) (auto split: if_splits)
  next
    case 2
    then show ?thesis by auto
  qed
qed


lemma combine_range_last_child:
  assumes "combine_range n p tok = Inr (f, l)" "children n \<noteq> []"
  shows "\<exists>c\<in>set (children n). last_token c = Some l"
proof -
  from assms(1) obtain f' l' where cc: "combine_children tok None (children n) = Inr (f', l')"
    and r: "(case (case f' of None \<Rightarrow> p | Some f \<Rightarrow> Some f) of
         None \<Rightarrow> Inl AttributeError
       | Some f \<Rightarrow> Inr (f, case l' of None \<Rightarrow> f | Some l \<Rightarrow> l)) = Inr (f, l)"
    unfolding combine_range_def ebind_Inr_iff by auto
  from assms(2) obtain c where c: "c \<in> set (children n)" by (cases "children n") auto
  from combine_children_bounds[OF cc] c obtain y z where "f' = Some y" "l' = Some z" by blast
  with r have "l = z" by auto
  with combine_children_last_from[of tok None "children n" f' z] cc \<open>l' = Some z\<close>
  show ?thesis by auto
qed


subsection \<open>The post-visit step and the tree walk\<close>

lemma ebind_InrE:
  assumes "ebind m f = Inr y"
  obtains x where "m = Inr x" "f x = Inr y"
  using assms by (cases m) auto

lemma ebind_Inr_prodE:
  assumes "ebind m (\<lambda>(a, b). f a b) = Inr y"
  obtains a b where "m = Inr (a, b)" "f a b = Inr y"
  using assms by (cases m) auto

lemma visit_after_children_shape:
  assumes "visit_after_children self n p tok = Inr n'"
  shows "\<exists>f l nf nl. preliminary_range self n p tok = Inr (f, l) \<and>
           n' = Node (attrs n) (children n) (Some nf) (Some nl) \<and>
           index nf \<le> index f \<and> index l \<le> index nl"
  using assms unfolding visit_after_children_def
  apply (elim ebind_Inr_prodE)
  apply (auto split: if_splits dest!: expand_widens methods_get_widens)
  done


subsection \<open>Stored fields are not read\<close>

lemma methods_get_fields:
  "methods_get self k (Node a cs f l) x y = methods_get self k (Node a cs f' l') x y"
  by (cases k)
     (simp_all add: methods_get_def visit_default_def visit_listcomp_def visit_setcomp_def
       visit_dictcomp_def handle_comp_def visit_comprehension_def handle_attr_def visit_call_def
       visit_subscript_def visit_tuple_def visit_num_def visit_keyword_def)

lemma visit_after_children_fields:
  "visit_after_children self (Node a cs f l) p tok = visit_after_children self (Node a cs f' l') p tok"
proof -
  have 1: "preliminary_range self (Node a cs f l) p tok = preliminary_range self (Node a cs f' l') p tok"
    by (simp add: preliminary_range_def combine_range_def)
  have 2: "\<And>x y. expand_to_matching_pairs (code self) x y (Node a cs f l)
              = expand_to_matching_pairs (code self) x y (Node a cs f' l')"
    by (simp add: expand_to_matching_pairs_def iter_non_child_tokens_def)
  have 3: "\<And>x y. methods_get self (cls a) (Node a cs f l) x y = methods_get self (cls a) (Node a cs f' l') x y"
    by (rule methods_get_fields)
  show ?thesis
    unfolding visit_after_children_def node.sel by (simp only: 1 2 3)
qed

lemma visit_node_idem:
    "visit_node self p n = Inr n' \<Longrightarrow> visit_node self p n' = Inr n'"
  and visit_nodes_idem:
    "visit_nodes self p ns = Inr ns' \<Longrightarrow> visit_nodes self p ns' = Inr ns'"
proof (induction self p n and self p ns arbitrary: n' and ns' rule: visit_node_visit_nodes.induct)
  case (1 self parent_token a cs f l)
  from "1.prems" obtain cs' where cs': "visit_nodes self (fst (visit_before_children self a parent_token)) cs = Inr cs'"
    and ac: "visit_after_children self (Node a cs' f l) parent_token
         (snd (visit_before_children self a parent_token)) = Inr n'"
    by (auto split: sum.splits)
  from visit_after_children_shape[OF ac] obtain nf nl where
    n': "n' = Node a cs' (Some nf) (Some nl)" by auto
  from "1.IH"[OF cs'] have again: "visit_nodes self (fst (visit_before_children self a parent_token)) cs' = Inr cs'" .
  have "visit_after_children self (Node a cs' (Some nf) (Some nl)) parent_token
         (snd (visit_before_children self a parent_token)) = Inr n'"
    using ac visit_after_children_fields[of self a cs' f l _ _ "Some nf" "Some nl"] by simp
  with again n' show ?case by simp
next
  case (2 self pvalue)
  then show ?case by simp
next
  case (3 self pvalue n ns)
  from "3.prems" obtain k ks where k: "visit_node self pvalue n = Inr k" and ks: "visit_nodes self pvalue ns = Inr ks"
    and ns': "ns' = k # ks" by (auto split: sum.splits)
  from "3.IH"(1)[OF k] "3.IH"(2)[OF k ks] ns' show ?case by simp
qed

lemma ebind_Inl_cases:
  assumes "ebind m f = Inl e"
  obtains "m = Inl e" | x where "m = Inr x" "f x = Inl e"
  using assms by (cases m) auto

lemma next_token_error: "next_token c t = Inl e \<Longrightarrow> e = IndexError"
  by (auto simp: next_token_def split: if_splits)

lemma prev_token_error: "prev_token c t = Inl e \<Longrightarrow> e = IndexError"
  by (auto simp: prev_token_def split: if_splits)

lemma expect_token_error: "expect_token t ty s = Inl e \<Longrightarrow> e = ValueError"
  by (auto simp: expect_token_def split: if_splits)

lemma extend_last_error: "extend_last c t ms = Inl e \<Longrightarrow> e \<noteq> Diverges"
  by (induction ms arbitrary: t) (auto split: sum.splits dest: next_token_error expect_token_error)

lemma extend_first_error: "extend_first c t ms = Inl e \<Longrightarrow> e \<noteq> Diverges"
  by (induction ms arbitrary: t) (auto split: sum.splits dest: prev_token_error expect_token_error)

lemma iter_non_child_tokens_from_error:
  "iter_non_child_tokens_from c tok l ns = Inl e \<Longrightarrow> e \<noteq> Diverges"
  by (induction ns arbitrary: tok)
     (auto split: sum.splits option.splits if_splits dest: next_token_error prev_token_error)

lemma expand_error: "expand_to_matching_pairs c f l n = Inl e \<Longrightarrow> e \<noteq> Diverges"
  unfolding expand_to_matching_pairs_def iter_non_child_tokens_def
  by (auto elim!: ebind_Inl_cases split: prod.splits
      dest: iter_non_child_tokens_from_error extend_last_error extend_first_error)

lemma visit_num_error: "visit_num c n f l = Inl e \<Longrightarrow> e \<noteq> Diverges"
  using visit_num_loop_returns[of c l]
  by (auto simp: visit_num_def split: option.splits elim!: ebind_Inl_cases dest: visit_num_loop_error)

lemma methods_get_error: "methods_get self k n f l = Inl e \<Longrightarrow> e \<noteq> Diverges"
  apply (cases k)
  apply (auto simp: methods_get_def visit_default_def visit_listcomp_def visit_setcomp_def visit_dictcomp_def
       handle_comp_def visit_comprehension_def handle_attr_def visit_call_def visit_subscript_def
       visit_tuple_def visit_keyword_def
       split: if_splits sum.splits option.splits elim!: ebind_Inl_cases
       dest: prev_token_error next_token_error find_token_error expect_token_error visit_num_error)
  done

lemma combine_children_error: "combine_children first lst cs = Inl e \<Longrightarrow> e = AttributeError"
  by (induction first lst cs rule: combine_children.induct) (auto split: option.splits)

lemma find_last_in_line_error: "find_last_in_line c t = Inl e \<Longrightarrow> e = IndexError"
  unfolding find_last_in_line_def
  by (auto elim!: ebind_Inl_cases split: sum.splits if_splits dest: find_token_error prev_token_error)

lemma preliminary_range_error: "preliminary_range self n p tok = Inl e \<Longrightarrow> e \<noteq> Diverges"
  unfolding preliminary_range_def combine_range_def
  by (auto elim!: ebind_Inl_cases split: sum.splits if_splits option.splits prod.splits
       dest: combine_children_error find_last_in_line_error)

lemma visit_after_children_error: "visit_after_children self n p tok = Inl e \<Longrightarrow> e \<noteq> Diverges"
  unfolding visit_after_children_def
  by (auto elim!: ebind_Inl_cases split: if_splits prod.splits
       dest: preliminary_range_error expand_error methods_get_error)

lemma visit_node_returns:
    "visit_node self p n \<noteq> Inl Diverges"
  and visit_nodes_returns:
    "visit_nodes self p ns \<noteq> Inl Diverges"
proof (induction self p n and self p ns rule: visit_node_visit_nodes.induct)
  case (1 self parent_token a cs f l)
  then show ?case by (auto split: sum.splits dest: visit_after_children_error)
next
  case (2 self pvalue)
  then show ?case by simp
next
  case (3 self pvalue n ns)
  then show ?case by (auto split: sum.splits)
qed

subsection \<open>The combiner chooses least and greatest indices\<close>

lemma set_first_candidates:
  "set (first_candidates tok cs) = set_option tok \<union> {t. \<exists>c\<in>set cs. first_token c = Some t}"
  by (cases tok) (force simp: first_candidates_def map_filter_def image_iff)+

lemma set_last_candidates:
  "set (last_candidates cs) = {t. \<exists>c\<in>set cs. last_token c = Some t}"
  by (force simp: last_candidates_def map_filter_def image_iff)

lemma combine_children_result:
  "\<forall>c\<in>set cs. marked c \<Longrightarrow>
   \<exists>f' l'. combine_children first lst cs = Inr (f', l') \<and>
     (f' = None \<longleftrightarrow> first = None \<and> cs = []) \<and>
     (l' = None \<longleftrightarrow> lst = None \<and> cs = []) \<and>
     (\<forall>y. f' = Some y \<longrightarrow> y \<in> set (first_candidates first cs) \<and>
        (\<forall>x\<in>set (first_candidates first cs). index y \<le> index x)) \<and>
     (\<forall>z. l' = Some z \<longrightarrow> z \<in> set_option lst \<union> set (last_candidates cs) \<and>
        (\<forall>x\<in>set_option lst \<union> set (last_candidates cs). index x \<le> index z))"
proof (induction first lst cs rule: combine_children.induct)
  case (1 first lst)
  then show ?case by (auto simp: set_first_candidates set_last_candidates)
next
  case (2 first lst child rest)
  from "2.prems" obtain cf cl where cf: "first_token child = Some cf" and cl: "last_token child = Some cl"
    by (auto simp: marked_def)
  let ?f = "(case first of None \<Rightarrow> Some cf | Some f \<Rightarrow> if index cf < index f then Some cf else Some f)"
  let ?l = "(case lst of None \<Rightarrow> Some cl | Some l \<Rightarrow> if index cl > index l then Some cl else Some l)"
  from "2.prems" have "\<forall>c\<in>set rest. marked c" by simp
  from "2.IH"[OF cf cl this] obtain f' l' where
    r: "combine_children ?f ?l rest = Inr (f', l')" and
    fn: "(f' = None \<longleftrightarrow> ?f = None \<and> rest = [])" and
    ln: "(l' = None \<longleftrightarrow> ?l = None \<and> rest = [])" and
    fm: "\<forall>y. f' = Some y \<longrightarrow> y \<in> set (first_candidates ?f rest) \<and>
        (\<forall>x\<in>set (first_candidates ?f rest). index y \<le> index x)" and
    lm: "\<forall>z. l' = Some z \<longrightarrow> z \<in> set_option ?l \<union> set (last_candidates rest) \<and>
        (\<forall>x\<in>set_option ?l \<union> set (last_candidates rest). index x \<le> index z)"
    by blast
  have fsome: "\<exists>f0. ?f = Some f0 \<and> f0 \<in> set_option first \<union> {cf} \<and>
      (\<forall>x \<in> set_option first \<union> {cf}. index f0 \<le> index x)"
    by (cases first) auto
  then obtain f0 where f0: "?f = Some f0" "f0 \<in> set_option first \<union> {cf}"
      "\<forall>x \<in> set_option first \<union> {cf}. index f0 \<le> index x" by blast
  have lsome: "\<exists>l0. ?l = Some l0 \<and> l0 \<in> set_option lst \<union> {cl} \<and>
      (\<forall>x \<in> set_option lst \<union> {cl}. index x \<le> index l0)"
    by (cases lst) auto
  then obtain l0 where l0: "?l = Some l0" "l0 \<in> set_option lst \<union> {cl}"
      "\<forall>x \<in> set_option lst \<union> {cl}. index x \<le> index l0" by blast
  have fc: "set (first_candidates first (child # rest)) = set_option first \<union> {cf} \<union> set (first_candidates None rest)"
    using cf by (auto simp: set_first_candidates)
  have fc': "set (first_candidates ?f rest) = {f0} \<union> set (first_candidates None rest)"
    using f0(1) by (auto simp: set_first_candidates)
  have lc: "set (last_candidates (child # rest)) = {cl} \<union> set (last_candidates rest)"
    using cl by (auto simp: set_last_candidates)
  from fn f0 obtain y where y: "f' = Some y" by (cases f') auto
  from ln l0 obtain z where z: "l' = Some z" by (cases l') auto
  from fm y have ym: "y \<in> {f0} \<union> set (first_candidates None rest)"
    and yb: "\<forall>x\<in>{f0} \<union> set (first_candidates None rest). index y \<le> index x"
    unfolding fc' by auto
  from lm z l0(1) have zm: "z \<in> {l0} \<union> set (last_candidates rest)"
    and zb: "\<forall>x\<in>{l0} \<union> set (last_candidates rest). index x \<le> index z"
    by auto
  have "y \<in> set (first_candidates first (child # rest))"
    using ym f0(2) unfolding fc by auto
  moreover have "\<forall>x\<in>set (first_candidates first (child # rest)). index y \<le> index x"
  proof
    fix x assume "x \<in> set (first_candidates first (child # rest))"
    then consider "x \<in> set_option first \<union> {cf}" | "x \<in> set (first_candidates None rest)"
      unfolding fc by blast
    then show "index y \<le> index x"
    proof cases
      case 1
      with f0(3) have "index f0 \<le> index x" by blast
      moreover from yb have "index y \<le> index f0" by blast
      ultimately show ?thesis by simp
    next
      case 2
      with yb show ?thesis by blast
    qed
  qed
  moreover have "z \<in> set_option lst \<union> set (last_candidates (child # rest))"
    using zm l0(2) unfolding lc by auto
  moreover have "\<forall>x\<in>set_option lst \<union> set (last_candidates (child # rest)). index x \<le> index z"
  proof
    fix x assume "x \<in> set_option lst \<union> set (last_candidates (child # rest))"
    then consider "x \<in> set_option lst \<union> {cl}" | "x \<in> set (last_candidates rest)"
      unfolding lc by blast
    then show "index x \<le> index z"
    proof cases
      case 1
      with l0(3) have "index x \<le> index l0" by blast
      moreover from zb have "index l0 \<le> index z" by blast
      ultimately show ?thesis by simp
    next
      case 2
      with zb show ?thesis by blast
    qed
  qed
  ultimately show ?case using r cf cl y z by simp
qed

lemma combine_range_result:
  assumes "\<forall>c\<in>set (children n). marked c" and "tok \<noteq> None \<or> children n \<noteq> []"
  shows "\<exists>f l. combine_range n p tok = Inr (f, l)
           \<and> f \<in> set (first_candidates tok (children n))
           \<and> (\<forall>x\<in>set (first_candidates tok (children n)). index f \<le> index x)
           \<and> (children n = [] \<longrightarrow> l = f)
           \<and> (children n \<noteq> [] \<longrightarrow> l \<in> set (last_candidates (children n))
                 \<and> (\<forall>x\<in>set (last_candidates (children n)). index x \<le> index l))"
proof -
  from combine_children_result[OF assms(1), of tok None] obtain f' l' where
    r: "combine_children tok None (children n) = Inr (f', l')" and
    fn: "f' = None \<longleftrightarrow> tok = None \<and> children n = []" and
    ln: "l' = None \<longleftrightarrow> children n = []" and
    fm: "\<forall>y. f' = Some y \<longrightarrow> y \<in> set (first_candidates tok (children n)) \<and>
        (\<forall>x\<in>set (first_candidates tok (children n)). index y \<le> index x)" and
    lm: "\<forall>z. l' = Some z \<longrightarrow> z \<in> set (last_candidates (children n)) \<and>
        (\<forall>x\<in>set (last_candidates (children n)). index x \<le> index z)"
    by auto
  from fn assms(2) obtain y where y: "f' = Some y" by (cases f') auto
  show ?thesis
  proof (cases l')
    case None
    with ln have "children n = []" by simp
    moreover from r y None have "combine_range n p tok = Inr (y, y)"
      by (simp add: combine_range_def)
    ultimately show ?thesis using fm y by auto
  next
    case (Some z)
    with ln have "children n \<noteq> []" by auto
    moreover from r y Some have "combine_range n p tok = Inr (y, z)"
      by (simp add: combine_range_def)
    ultimately show ?thesis using fm lm y Some by auto
  qed
qed

lemma combine_range_empty:
  "children n = [] \<Longrightarrow> combine_range n p None = (case p of None \<Rightarrow> Inl AttributeError | Some t \<Rightarrow> Inr (t, t))"
  by (simp add: combine_range_def split: option.splits)

lemma Min_index: "y \<in> set ts \<Longrightarrow> \<forall>x\<in>set ts. index y \<le> index x \<Longrightarrow> index y = Min (index ` set ts)"
  by (rule sym, rule Min_eqI) auto

lemma Max_index: "y \<in> set ts \<Longrightarrow> \<forall>x\<in>set ts. index x \<le> index y \<Longrightarrow> index y = Max (index ` set ts)"
  by (rule sym, rule Max_eqI) auto

lemma candidates_cong:
  "set cs2 = set cs \<Longrightarrow> set (first_candidates tok cs2) = set (first_candidates tok cs)
     \<and> set (last_candidates cs2) = set (last_candidates cs)"
  by (simp add: set_first_candidates set_last_candidates)

subsection \<open>Searching the stream\<close>












subsection \<open>The tokens that the expansion steps over\<close>

lemma expect_token_info: "expect_token t (fst m) (Some (snd m)) = Inr u \<Longrightarrow> tok_info t = m"
  by (cases m) (auto simp: expect_token_def match_token_def tok_info_def split: if_splits)

lemma next_token_is: "next_token c t = Inr t' \<Longrightarrow> t' = tok_at c (Suc (index t))"
  by (auto simp: next_token_def split: if_splits)

lemma prev_token_is: "prev_token c t = Inr t' \<Longrightarrow> t' = tok_at c (index t - 1) \<and> 0 < index t"
  by (auto simp: prev_token_def split: if_splits)

lemma extend_last_tokens:
  "extend_last c t ms = Inr t' \<Longrightarrow>
     map (\<lambda>i. tok_info (tok_at c i)) [Suc (index t) ..< Suc (index t + length ms)] = ms"
proof (induction ms arbitrary: t)
  case Nil
  then show ?case by simp
next
  case (Cons m ms)
  from Cons.prems obtain u where u: "next_token c t = Inr u"
    and e: "expect_token u (fst m) (Some (snd m)) = Inr ()"
    and r: "extend_last c u ms = Inr t'"
    by (auto split: sum.splits)
  from next_token_is[OF u] have uu: "u = tok_at c (Suc (index t))" .
  then have iu: "index u = Suc (index t)" by simp
  from expect_token_info[OF e] uu have m: "tok_info (tok_at c (Suc (index t))) = m" by simp
  from Cons.IH[OF r]
  have "map (\<lambda>i. tok_info (tok_at c i)) [Suc (index u) ..< Suc (index u + length ms)] = ms" .
  then have rest: "map (\<lambda>i. tok_info (tok_at c i))
                     [Suc (Suc (index t)) ..< Suc (Suc (index t) + length ms)] = ms"
    unfolding iu .
  have split: "[Suc (index t) ..< Suc (index t + length (m # ms))]
                 = Suc (index t) # [Suc (Suc (index t)) ..< Suc (Suc (index t) + length ms)]"
    by (simp add: upt_conv_Cons del: upt_Suc)
  show ?case
    unfolding split using m rest by (simp del: upt_Suc)
qed

lemma extend_first_tokens:
  "extend_first c t ms = Inr t' \<Longrightarrow>
     map (\<lambda>i. tok_info (tok_at c i)) [index t' ..< index t] = rev ms"
proof (induction ms arbitrary: t)
  case Nil
  then show ?case by simp
next
  case (Cons m ms)
  from Cons.prems obtain u where u: "prev_token c t = Inr u"
    and e: "expect_token u (fst m) (Some (snd m)) = Inr ()"
    and r: "extend_first c u ms = Inr t'"
    by (auto split: sum.splits)
  from prev_token_is[OF u] have uu: "u = tok_at c (index t - 1)" and pos: "0 < index t"
    by auto
  then have iu: "index t = Suc (index u)" by simp
  from expect_token_info[OF e] have m: "tok_info (tok_at c (index u)) = m"
    using uu by simp
  from extend_first_index[OF r] have le: "index t' \<le> index u" by simp
  from Cons.IH[OF r]
  have "map (\<lambda>i. tok_info (tok_at c i)) [index t' ..< index u] = rev ms" .
  with m le iu show ?case
    by simp
qed

lemma expand_stages:
  assumes "iter_non_child_tokens c f l n = Inr toks"
    and "scan_tokens toks = (to_match_right, to_match_left)"
  shows "expand_to_matching_pairs c f l n =
           ebind (extend_last c l (rev to_match_right)) (\<lambda>l'.
             ebind (extend_first c f to_match_left) (\<lambda>f'. Inr (f', l')))"
  using assms by (simp add: expand_to_matching_pairs_def)

subsection \<open>A failing node ends the walk\<close>

lemma visit_nodes_fails:
  "c \<in> set cs \<Longrightarrow> visit_node self pv c = Inl e \<Longrightarrow> \<exists>e'. visit_nodes self pv cs = Inl e'"
  by (induction cs) (auto split: sum.splits)

lemma visits_abort:
  "(q, m) \<in> set (visits self p n) \<Longrightarrow> visit_node self q m = Inl e
     \<Longrightarrow> \<exists>e'. visit_node self p n = Inl e'"
proof (induction n arbitrary: p)
  case (Node a cs f l)
  show ?case
  proof (cases "(q, m) = (p, Node a cs f l)")
    case True
    with Node.prems(2) show ?thesis by auto
  next
    case False
    with Node.prems(1) obtain c where c: "c \<in> set cs"
      and qm: "(q, m) \<in> set (visits self (fst (visit_before_children self a p)) c)"
      by auto
    from Node.IH[OF c qm Node.prems(2)] obtain e1 where
      "visit_node self (fst (visit_before_children self a p)) c = Inl e1" by blast
    from visit_nodes_fails[OF c this] obtain e2 where
      "visit_nodes self (fst (visit_before_children self a p)) cs = Inl e2" by blast
    then show ?thesis by simp
  qed
qed

subsection \<open>Every stored token is a token of the stream\<close>

lemma stream_tok_at: "i < length c \<Longrightarrow> stream_tok c (tok_at c i)"
  by (simp add: stream_tok_def)













subsection \<open>Where a statement ends\<close>

lemma visit_after_children_stages:
  assumes "visit_after_children self n p tok = Inr n'"
  shows "\<exists>pf pl fa la fb lb fc lc.
           preliminary_range self n p tok = Inr (pf, pl)
         \<and> expand_to_matching_pairs (code self) pf pl n = Inr (fa, la)
         \<and> methods_get self (cls (attrs n)) n fa la = Inr (fb, lb)
         \<and> (if (fb, lb) \<noteq> (fa, la) then expand_to_matching_pairs (code self) fb lb n
             else Inr (fb, lb)) = Inr (fc, lc)
         \<and> n' = Node (attrs n) (children n) (Some fc) (Some lc)"
  using assms unfolding visit_after_children_def
  apply (elim ebind_Inr_prodE)
  apply (simp only: sum.inject)
  apply blast
  done













subsection \<open>Every node of a marked tree has its last token\<close>





subsection \<open>Where the search for the end of the line stops\<close>




subsection \<open>Running off the stream at any round\<close>

lemma expect_token_ok: "tok_info t = m \<Longrightarrow> expect_token t (fst m) (Some (snd m)) = Inr ()"
  by (auto simp: expect_token_def match_token_def tok_info_def)

lemma extend_last_runs_off:
  assumes "length c - Suc (index l) < length ms"
    and "map (\<lambda>i. tok_info (tok_at c i)) [Suc (index l) ..< length c]
           = take (length c - Suc (index l)) ms"
  shows "extend_last c l ms = Inl IndexError"
  using assms
proof (induction ms arbitrary: l)
  case Nil
  then show ?case by simp
next
  case (Cons m ms)
  show ?case
  proof (cases "Suc (index l) < length c")
    case False
    then show ?thesis by (simp add: next_token_def)
  next
    case True
    let ?t = "tok_at c (Suc (index l))"
    from True have nt: "next_token c l = Inr ?t"
      by (simp add: next_token_def)
    from True have up: "[Suc (index l) ..< length c] = Suc (index l) # [Suc (Suc (index l)) ..< length c]"
      by (simp add: upt_conv_Cons)
    from True have len: "length c - Suc (index l) = Suc (length c - Suc (Suc (index l)))"
      by arith
    from Cons.prems(2) have hd: "tok_info ?t = m"
      and tl: "map (\<lambda>i. tok_info (tok_at c i)) [Suc (Suc (index l)) ..< length c]
                 = take (length c - Suc (Suc (index l))) ms"
      unfolding up len by simp_all
    from Cons.prems(1) len have less: "length c - Suc (Suc (index l)) < length ms"
      by simp
    have ix: "index ?t = Suc (index l)"
      by (simp add: tok_at_def)
    from Cons.IH[of ?t] less tl have "extend_last c ?t ms = Inl IndexError"
      by (simp add: ix)
    with nt expect_token_ok[OF hd] show ?thesis by simp
  qed
qed

lemma extend_first_runs_off:
  assumes "index f < length ms"
    and "map (\<lambda>i. tok_info (tok_at c i)) (rev [0 ..< index f]) = take (index f) ms"
  shows "extend_first c f ms = Inl IndexError"
  using assms
proof (induction ms arbitrary: f)
  case Nil
  then show ?case by simp
next
  case (Cons m ms)
  show ?case
  proof (cases "0 < index f \<and> index f - 1 < length c")
    case False
    then have "prev_token c f = Inl IndexError"
      by (auto simp: prev_token_def)
    then show ?thesis by simp
  next
    case True
    then obtain k where k: "index f = Suc k" "k < length c"
      by (cases "index f") auto
    let ?t = "tok_at c k"
    from k have pt: "prev_token c f = Inr ?t"
      by (simp add: prev_token_def)
    from Cons.prems(2) have hd: "tok_info ?t = m"
      and tl: "map (\<lambda>i. tok_info (tok_at c i)) (rev [0 ..< k]) = take k ms"
      unfolding k(1) by simp_all
    from Cons.prems(1) k have less: "k < length ms"
      by simp
    have ix: "index ?t = k"
      by (simp add: tok_at_def)
    from Cons.IH[of ?t] less tl have "extend_first c ?t ms = Inl IndexError"
      by (simp add: ix)
    with pt expect_token_ok[OF hd] show ?thesis by simp
  qed
qed

lemma visit_num_loop_runs_off:
  assumes "tok_type l = OP"
    and "list_all (\<lambda>x. lex_type x = OP) (drop (Suc (index l)) c)"
  shows "visit_num_loop c l = Some (Inl IndexError)"
  using assms
proof (induction "length c - index l" arbitrary: l rule: less_induct)
  case less
  from less.prems(1) have op: "match_token l OP None"
    by (simp add: match_token_def)
  show ?case
  proof (cases "Suc (index l) < length c")
    case False
    with op show ?thesis
      by (subst visit_num_loop.simps) (simp add: next_token_def)
  next
    case True
    let ?t = "tok_at c (Suc (index l))"
    from True have nt: "next_token c l = Inr ?t"
      by (simp add: next_token_def)
    from True have dr: "drop (Suc (index l)) c = c ! Suc (index l) # drop (Suc (Suc (index l))) c"
      by (simp add: Cons_nth_drop_Suc)
    from less.prems(2) have t_op: "tok_type ?t = OP"
      and rest: "list_all (\<lambda>x. lex_type x = OP) (drop (Suc (Suc (index l))) c)"
      unfolding dr by (simp_all add: tok_at_def)
    have ix: "index ?t = Suc (index l)"
      by (simp add: tok_at_def)
    from True have "length c - index ?t < length c - index l"
      unfolding ix by arith
    from less.hyps[OF this t_op] rest have "visit_num_loop c ?t = Some (Inl IndexError)"
      by (simp add: ix)
    with op nt show ?thesis
      by (subst visit_num_loop.simps) simp
  qed
qed

lemma passes_childD:
  assumes "passes_child c ltok n"
  obtains nf nl p t where "first_token n = Some nf" "last_token n = Some nl"
    "prev_token c nf = Inr p" "index nl < index ltok" "next_token c nl = Inr t"
proof -
  from assms obtain nf nl where a: "first_token n = Some nf" "last_token n = Some nl"
    and b: "\<not> isl (prev_token c nf)" "index nl < index ltok" "\<not> isl (next_token c nl)"
    by (auto simp: passes_child_def split: option.splits)
  from b(1) obtain p where "prev_token c nf = Inr p" by (cases "prev_token c nf") auto
  moreover from b(3) obtain t where "next_token c nl = Inr t" by (cases "next_token c nl") auto
  ultimately show thesis using a b(2) that by blast
qed

lemma scan_fails_before:
  assumes "list_all (passes_child c ltok) pre" "first_token ch = Some cf"
    and "prev_token c cf = Inl e"
  shows "iter_non_child_tokens_from c tok ltok (pre @ ch # rest) = Inl e"
  using assms(1)
proof (induction pre arbitrary: tok)
  case Nil
  from assms(2,3) show ?case by simp
next
  case (Cons n pre)
  from Cons.prems have n: "passes_child c ltok n" and pre: "list_all (passes_child c ltok) pre"
    by simp_all
  from n obtain nf nl p t where "first_token n = Some nf" "last_token n = Some nl"
    "prev_token c nf = Inr p" "index nl < index ltok" "next_token c nl = Inr t"
    by (rule passes_childD)
  with Cons.IH[OF pre, of t] show ?case by simp
qed

lemma scan_fails_after:
  assumes "list_all (passes_child c ltok) pre" "first_token ch = Some cf"
    and "prev_token c cf = Inr q" "last_token ch = Some cl" "index cl < index ltok"
    and "next_token c cl = Inl e"
  shows "iter_non_child_tokens_from c tok ltok (pre @ ch # rest) = Inl e"
  using assms(1)
proof (induction pre arbitrary: tok)
  case Nil
  from assms(2-6) show ?case by simp
next
  case (Cons n pre)
  from Cons.prems have n: "passes_child c ltok n" and pre: "list_all (passes_child c ltok) pre"
    by simp_all
  from n obtain nf nl p t where "first_token n = Some nf" "last_token n = Some nl"
    "prev_token c nf = Inr p" "index nl < index ltok" "next_token c nl = Inr t"
    by (rule passes_childD)
  with Cons.IH[OF pre, of t] show ?case by simp
qed

subsection \<open>The first failure of the walk\<close>

lemma visit_nodes_first_failure:
  assumes "visit_nodes self pv pre = Inr pre'" "visit_node self pv n = Inl e"
  shows "visit_nodes self pv (pre @ n # rest) = Inl e"
  using assms(1)
proof (induction pre arbitrary: pre')
  case Nil
  from assms(2) show ?case by simp
next
  case (Cons m pre)
  from Cons.prems obtain m' ps where "visit_node self pv m = Inr m'"
    "visit_nodes self pv pre = Inr ps"
    by (auto split: sum.splits)
  with Cons.IH[of ps] show ?case by simp
qed

lemma visit_nodes_failure_origin:
  "visit_nodes self pv cs = Inl e \<Longrightarrow> \<exists>c\<in>set cs. visit_node self pv c = Inl e"
  by (induction cs) (auto split: sum.splits)

lemma visit_node_post_failure:
  assumes "visit_nodes self (fst (visit_before_children self a p)) cs = Inr cs'"
    and "visit_after_children self (Node a cs' f l) p (snd (visit_before_children self a p)) = Inl e"
  shows "visit_node self p (Node a cs f l) = Inl e"
  using assms by simp

lemma visit_node_failure_origin:
  "visit_node self p n = Inl e \<Longrightarrow>
     \<exists>q a cs f l cs'. (q, Node a cs f l) \<in> set (visits self p n)
        \<and> visit_nodes self (fst (visit_before_children self a q)) cs = Inr cs'
        \<and> visit_after_children self (Node a cs' f l) q (snd (visit_before_children self a q)) = Inl e"
proof (induction n arbitrary: p)
  case (Node a cs f l)
  let ?pv = "fst (visit_before_children self a p)"
  show ?case
  proof (cases "visit_nodes self ?pv cs")
    case (Inl e1)
    with Node.prems have "e1 = e" by simp
    with Inl obtain c where c: "c \<in> set cs" and cf: "visit_node self ?pv c = Inl e"
      using visit_nodes_failure_origin by blast
    from Node.IH[OF c cf] obtain q a' cs0 f' l' cs' where
      v: "(q, Node a' cs0 f' l') \<in> set (visits self ?pv c)"
      and r: "visit_nodes self (fst (visit_before_children self a' q)) cs0 = Inr cs'"
        "visit_after_children self (Node a' cs' f' l') q (snd (visit_before_children self a' q)) = Inl e"
      by blast
    from v c have "(q, Node a' cs0 f' l') \<in> set (visits self p (Node a cs f l))"
      by auto
    with r show ?thesis by blast
  next
    case (Inr cs')
    with Node.prems have
      "visit_after_children self (Node a cs' f l) p (snd (visit_before_children self a p)) = Inl e"
      by simp
    moreover have "(p, Node a cs f l) \<in> set (visits self p (Node a cs f l))"
      by simp
    ultimately show ?thesis using Inr by blast
  qed
qed

lemma visits_all_succeed:
  assumes "visit_node self p n = Inr n'" "(q, Node a cs f l) \<in> set (visits self p n)"
  shows "\<exists>cs' m. visit_nodes self (fst (visit_before_children self a q)) cs = Inr cs'
           \<and> visit_after_children self (Node a cs' f l) q (snd (visit_before_children self a q)) = Inr m"
proof -
  have "\<exists>m. visit_node self q (Node a cs f l) = Inr m"
  proof (cases "visit_node self q (Node a cs f l)")
    case (Inl e)
    from visits_abort[OF assms(2) Inl] assms(1) show ?thesis by auto
  next
    case (Inr m)
    then show ?thesis by blast
  qed
  then show ?thesis
    by (auto split: sum.splits)
qed

section \<open>Claims\<close>

subsection \<open>C1: a parent's range and its children's ranges\<close>




subsection \<open>C8: running the pass again\<close>

text \<open>
  C8: the pass applied to a tree it has marked returns the same tree, so every node keeps
  its pair \<open>(first_token, last_token)\<close>: the second run reads none of the stored fields
  and assigns each of them again.
\<close>

theorem marking_idempotent:
  assumes "visit_tree self n = Inr n'"
  shows "visit_tree self n' = Inr n'"
  using assms visit_node_idem[of self None n n'] by (simp add: visit_tree_def)

theorem marking_idempotent_witness:
  "visit_tree call_self call_tree = Inr call_marked
   \<and> visit_tree call_self call_marked = Inr call_marked"
proof -
  have run: "visit_tree call_self call_tree = Inr call_marked"
    by code_simp
  from marking_idempotent[OF run] run show ?thesis by simp
qed

subsection \<open>C9: the pass returns\<close>

text \<open>
  C9: the \<^verbatim>\<open>while\<close> loop of \<^verbatim>\<open>visit_num\<close> returns on every stream and from every
  token (each round moves one token forward and the step past the last token raises), and
  the pass over a tree returns a marked tree or raises: \<open>Diverges\<close> is never its outcome.
  The scan of the gap tokens and the other loops run over finite lists.
\<close>

theorem marking_terminates:
  "(\<exists>r. visit_num_loop c t = Some r) \<and> visit_tree self n \<noteq> Inl Diverges"
  using visit_num_loop_returns[of c t] visit_node_returns[of self None n]
  by (simp add: visit_tree_def)

theorem marking_terminates_witness:
  "visit_num_loop [Lexeme OP ''-'' (1, 0)] (Token OP ''-'' 0) = Some (Inl IndexError)
   \<and> visit_num_loop num_code (Token OP ''-'' 1) = Some (Inr (Token NUMBER ''1'' 2))
   \<and> visit_tree \<lparr>code = num_code, py2 = False\<rparr> num_tree = Inr num_marked
   \<and> visit_tree \<lparr>code = num_code, py2 = False\<rparr> num_tree \<noteq> Inl Diverges"
proof -
  have "visit_num_loop [Lexeme OP ''-'' (1, 0)] (Token OP ''-'' 0) = Some (Inl IndexError)"
    by code_simp
  moreover have "visit_num_loop num_code (Token OP ''-'' 1) = Some (Inr (Token NUMBER ''1'' 2))"
    by code_simp
  moreover have "visit_tree \<lparr>code = num_code, py2 = False\<rparr> num_tree = Inr num_marked"
    by code_simp
  ultimately show ?thesis
    using marking_terminates[of num_code "Token OP ''-'' 1" "\<lparr>code = num_code, py2 = False\<rparr>" num_tree]
    by blast
qed

subsection \<open>C10: ranges only widen\<close>

text \<open>
  C10: whenever a node visitor or \<^verbatim>\<open>_expand_to_matching_pairs\<close> returns a range for the
  range \<open>(f, l)\<close>, the returned first token is at or before \<open>f\<close> and the returned last
  token is at or after \<open>l\<close>; so the range that \<^verbatim>\<open>_visit_after_children\<close> stores contains
  the range the combiner handed over.
\<close>

theorem ranges_only_widen:
  "widens f l (visit_default n f l)
   \<and> widens f l (handle_comp c b n f l)
   \<and> widens f l (visit_listcomp c n f l)
   \<and> widens f l (visit_setcomp c n f l)
   \<and> widens f l (visit_dictcomp c n f l)
   \<and> widens f l (visit_comprehension c n f l)
   \<and> widens f l (handle_attr c n f l)
   \<and> widens f l (visit_call c n f l)
   \<and> widens f l (visit_subscript c n f l)
   \<and> widens f l (visit_tuple c n f l)
   \<and> widens f l (visit_num c n f l)
   \<and> widens f l (visit_keyword c n f l)
   \<and> widens f l (methods_get self k n f l)
   \<and> widens f l (expand_to_matching_pairs c f l n)
   \<and> (visit_after_children self n p tok = Inr n' \<longrightarrow>
        (\<exists>pf pl nf nl. preliminary_range self n p tok = Inr (pf, pl)
           \<and> first_token n' = Some nf \<and> last_token n' = Some nl
           \<and> index nf \<le> index pf \<and> index pl \<le> index nl))"
proof -
  have table: "widens f l (methods_get s k' n f l)" for s k'
    using methods_get_widens[of s k' n f l]
    by (auto simp: widens_def split: sum.splits)
  have "widens f l (visit_default n f l)"
    using table[of "\<lparr>code = c, py2 = True\<rparr>" "OtherNode []"] by (simp add: methods_get_def)
  moreover have "widens f l (handle_comp c b n f l)"
    by (auto simp: widens_def handle_comp_def ebind_Inr_iff split: sum.splits
        dest!: prev_token_index)
  moreover have "widens f l (visit_listcomp c n f l)"
    using table[of "\<lparr>code = c, py2 = True\<rparr>" ListComp] by (simp add: methods_get_def)
  moreover have "widens f l (visit_setcomp c n f l)"
    using table[of "\<lparr>code = c, py2 = True\<rparr>" SetComp] by (simp add: methods_get_def)
  moreover have "widens f l (visit_dictcomp c n f l)"
    using table[of "\<lparr>code = c, py2 = True\<rparr>" DictComp] by (simp add: methods_get_def)
  moreover have "widens f l (visit_comprehension c n f l)"
    using table[of "\<lparr>code = c, py2 = True\<rparr>" Comprehension] by (simp add: methods_get_def)
  moreover have "widens f l (handle_attr c n f l)"
    using table[of "\<lparr>code = c, py2 = True\<rparr>" Attribute] by (simp add: methods_get_def)
  moreover have "widens f l (visit_call c n f l)"
    using table[of "\<lparr>code = c, py2 = True\<rparr>" Call] by (simp add: methods_get_def)
  moreover have "widens f l (visit_subscript c n f l)"
    using table[of "\<lparr>code = c, py2 = True\<rparr>" Subscript] by (simp add: methods_get_def)
  moreover have "widens f l (visit_tuple c n f l)"
    using table[of "\<lparr>code = c, py2 = True\<rparr>" Tuple] by (simp add: methods_get_def)
  moreover have "widens f l (visit_num c n f l)"
    using table[of "\<lparr>code = c, py2 = True\<rparr>" Num] by (simp add: methods_get_def)
  moreover have "widens f l (visit_keyword c n f l)"
    using table[of "\<lparr>code = c, py2 = True\<rparr>" Keyword] by (simp add: methods_get_def)
  moreover have "widens f l (methods_get self k n f l)"
    by (rule table)
  moreover have "widens f l (expand_to_matching_pairs c f l n)"
    using expand_widens[of c f l n] by (auto simp: widens_def split: sum.splits)
  moreover have "visit_after_children self n p tok = Inr n' \<longrightarrow>
        (\<exists>pf pl nf nl. preliminary_range self n p tok = Inr (pf, pl)
           \<and> first_token n' = Some nf \<and> last_token n' = Some nl
           \<and> index nf \<le> index pf \<and> index pl \<le> index nl)"
    using visit_after_children_shape[of self n p tok n'] by auto
  ultimately show ?thesis by blast
qed

theorem ranges_only_widen_witness:
  "visit_call call_code (Node (Attrs Call 1 (Some 7) None) call_children None None)
       (Token NAME ''f'' 1) (Token NAME ''x'' 3)
     = Inr (Token NAME ''f'' 1, Token OP '')'' 4)
   \<and> widens (Token NAME ''f'' 1) (Token NAME ''x'' 3)
       (visit_call call_code (Node (Attrs Call 1 (Some 7) None) call_children None None)
          (Token NAME ''f'' 1) (Token NAME ''x'' 3))
   \<and> visit_after_children call_self (Node (Attrs Call 1 (Some 7) None) call_children None None)
       (Some (Token NAME ''return'' 0)) (Some (Token NAME ''f'' 1)) = Inr call_node
   \<and> preliminary_range call_self (Node (Attrs Call 1 (Some 7) None) call_children None None)
       (Some (Token NAME ''return'' 0)) (Some (Token NAME ''f'' 1))
     = Inr (Token NAME ''f'' 1, Token NAME ''x'' 3)
   \<and> (\<exists>pf pl nf nl.
         preliminary_range call_self (Node (Attrs Call 1 (Some 7) None) call_children None None)
           (Some (Token NAME ''return'' 0)) (Some (Token NAME ''f'' 1)) = Inr (pf, pl)
         \<and> first_token call_node = Some nf \<and> last_token call_node = Some nl
         \<and> index nf \<le> index pf \<and> index pl \<le> index nl)"
proof -
  let ?n = "Node (Attrs Call 1 (Some 7) None) call_children None None"
  have call: "visit_call call_code ?n (Token NAME ''f'' 1) (Token NAME ''x'' 3)
     = Inr (Token NAME ''f'' 1, Token OP '')'' 4)"
    by code_simp
  have post: "visit_after_children call_self ?n
       (Some (Token NAME ''return'' 0)) (Some (Token NAME ''f'' 1)) = Inr call_node"
    by code_simp
  have pre: "preliminary_range call_self ?n
       (Some (Token NAME ''return'' 0)) (Some (Token NAME ''f'' 1))
     = Inr (Token NAME ''f'' 1, Token NAME ''x'' 3)"
    by code_simp
  note all = ranges_only_widen[of "Token NAME ''f'' 1" "Token NAME ''x'' 3" ?n call_code
      "''(''" call_self Call "Some (Token NAME ''return'' 0)" "Some (Token NAME ''f'' 1)" call_node]
  from all have "widens (Token NAME ''f'' 1) (Token NAME ''x'' 3)
       (visit_call call_code ?n (Token NAME ''f'' 1) (Token NAME ''x'' 3))"
    by blast
  moreover from all post have "\<exists>pf pl nf nl.
         preliminary_range call_self ?n
           (Some (Token NAME ''return'' 0)) (Some (Token NAME ''f'' 1)) = Inr (pf, pl)
         \<and> first_token call_node = Some nf \<and> last_token call_node = Some nl
         \<and> index nf \<le> index pf \<and> index pl \<le> index nl"
    by blast
  ultimately show ?thesis using call post pre by blast
qed

subsection \<open>C6: the range combiner\<close>

text \<open>
  C6: when the children of a node are marked, the loop and the two defaults of
  \<^verbatim>\<open>_visit_after_children\<close> (lines 63 to 76) give, as \<open>first\<close>, a token of least index
  among the node's own token (when it has one) and the children's first tokens, and as
  \<open>last\<close> a token of greatest index among the children's last tokens. The indices do not
  depend on the order of the children, and neither do the tokens when no two of the
  candidates share an index. With no own token and no children \<open>first\<close> is the parent's
  token (and the accessor raises on \<^verbatim>\<open>None\<close> when there is none); with no children \<open>last\<close>
  is \<open>first\<close>.
\<close>

theorem combiner_min_max:
  assumes "\<forall>c\<in>set (children n). marked c"
  shows "(tok = None \<and> children n = [] \<longrightarrow>
            combine_range n p tok = (case p of None \<Rightarrow> Inl AttributeError | Some t \<Rightarrow> Inr (t, t)))
       \<and> (tok \<noteq> None \<or> children n \<noteq> [] \<longrightarrow>
            (\<exists>f l. combine_range n p tok = Inr (f, l)
               \<and> f \<in> set (first_candidates tok (children n))
               \<and> index f = Min (index ` set (first_candidates tok (children n)))
               \<and> (children n = [] \<longrightarrow> l = f)
               \<and> (children n \<noteq> [] \<longrightarrow> l \<in> set (last_candidates (children n))
                     \<and> index l = Max (index ` set (last_candidates (children n))))))
       \<and> (set (children n2) = set (children n) \<longrightarrow>
            map_sum id (map_prod index index) (combine_range n2 p tok)
              = map_sum id (map_prod index index) (combine_range n p tok))
       \<and> (set (children n2) = set (children n)
            \<and> inj_on index (set (first_candidates tok (children n)) \<union> set (last_candidates (children n)))
            \<longrightarrow> combine_range n2 p tok = combine_range n p tok)"
proof (intro conjI impI)
  assume "tok = None \<and> children n = []"
  then show "combine_range n p tok = (case p of None \<Rightarrow> Inl AttributeError | Some t \<Rightarrow> Inr (t, t))"
    using combine_range_empty[of n p] by simp
next
  assume ne: "tok \<noteq> None \<or> children n \<noteq> []"
  from combine_range_result[OF assms ne, of p] obtain f l where
    r: "combine_range n p tok = Inr (f, l)" "f \<in> set (first_candidates tok (children n))"
       "\<forall>x\<in>set (first_candidates tok (children n)). index f \<le> index x"
       "children n = [] \<longrightarrow> l = f"
       "children n \<noteq> [] \<longrightarrow> l \<in> set (last_candidates (children n))
                 \<and> (\<forall>x\<in>set (last_candidates (children n)). index x \<le> index l)"
    by blast
  from r(2,3) have "index f = Min (index ` set (first_candidates tok (children n)))"
    by (rule Min_index)
  moreover from r(5) have "children n \<noteq> [] \<longrightarrow> index l = Max (index ` set (last_candidates (children n)))"
    using Max_index[of l "last_candidates (children n)"] by blast
  ultimately show "\<exists>f l. combine_range n p tok = Inr (f, l)
               \<and> f \<in> set (first_candidates tok (children n))
               \<and> index f = Min (index ` set (first_candidates tok (children n)))
               \<and> (children n = [] \<longrightarrow> l = f)
               \<and> (children n \<noteq> [] \<longrightarrow> l \<in> set (last_candidates (children n))
                     \<and> index l = Max (index ` set (last_candidates (children n))))"
    using r by blast
next
  assume eq: "set (children n2) = set (children n)"
  show "map_sum id (map_prod index index) (combine_range n2 p tok)
              = map_sum id (map_prod index index) (combine_range n p tok)"
  proof (cases "tok \<noteq> None \<or> children n \<noteq> []")
    case False
    with eq have "tok = None" "children n = []" "children n2 = []" by auto
    then show ?thesis using combine_range_empty[of n p] combine_range_empty[of n2 p] by simp
  next
    case True
    from eq assms have m2: "\<forall>c\<in>set (children n2). marked c" by simp
    from eq True have ne2: "tok \<noteq> None \<or> children n2 \<noteq> []" by auto
    from eq have e: "children n2 = [] \<longleftrightarrow> children n = []" by auto
    note cc = candidates_cong[OF eq, of tok]
    from combine_range_result[OF assms True, of p] obtain f l where
      r: "combine_range n p tok = Inr (f, l)" "f \<in> set (first_candidates tok (children n))"
       "\<forall>x\<in>set (first_candidates tok (children n)). index f \<le> index x"
       "children n = [] \<longrightarrow> l = f"
       "children n \<noteq> [] \<longrightarrow> l \<in> set (last_candidates (children n))
                 \<and> (\<forall>x\<in>set (last_candidates (children n)). index x \<le> index l)"
      by blast
    from combine_range_result[OF m2 ne2, of p] cc e obtain f2 l2 where
      r2: "combine_range n2 p tok = Inr (f2, l2)" "f2 \<in> set (first_candidates tok (children n))"
       "\<forall>x\<in>set (first_candidates tok (children n)). index f2 \<le> index x"
       "children n = [] \<longrightarrow> l2 = f2"
       "children n \<noteq> [] \<longrightarrow> l2 \<in> set (last_candidates (children n))
                 \<and> (\<forall>x\<in>set (last_candidates (children n)). index x \<le> index l2)"
      by auto
    from r(2,3) r2(2,3) have fi: "index f2 = index f" by (auto intro: le_antisym)
    have "index l2 = index l"
    proof (cases "children n = []")
      case True
      with r(4) r2(4) fi show ?thesis by simp
    next
      case False
      with r(5) r2(5) show ?thesis by (auto intro: le_antisym)
    qed
    with fi r(1) r2(1) show ?thesis by simp
  qed
next
  assume a: "set (children n2) = set (children n)
            \<and> inj_on index (set (first_candidates tok (children n)) \<union> set (last_candidates (children n)))"
  then have eq: "set (children n2) = set (children n)"
    and inj: "inj_on index (set (first_candidates tok (children n)) \<union> set (last_candidates (children n)))"
    by auto
  show "combine_range n2 p tok = combine_range n p tok"
  proof (cases "tok \<noteq> None \<or> children n \<noteq> []")
    case False
    with eq have "tok = None" "children n = []" "children n2 = []" by auto
    then show ?thesis using combine_range_empty[of n p] combine_range_empty[of n2 p] by simp
  next
    case True
    from eq assms have m2: "\<forall>c\<in>set (children n2). marked c" by simp
    from eq True have ne2: "tok \<noteq> None \<or> children n2 \<noteq> []" by auto
    from eq have e: "children n2 = [] \<longleftrightarrow> children n = []" by auto
    note cc = candidates_cong[OF eq, of tok]
    from combine_range_result[OF assms True, of p] obtain f l where
      r: "combine_range n p tok = Inr (f, l)" "f \<in> set (first_candidates tok (children n))"
       "\<forall>x\<in>set (first_candidates tok (children n)). index f \<le> index x"
       "children n = [] \<longrightarrow> l = f"
       "children n \<noteq> [] \<longrightarrow> l \<in> set (last_candidates (children n))
                 \<and> (\<forall>x\<in>set (last_candidates (children n)). index x \<le> index l)"
      by blast
    from combine_range_result[OF m2 ne2, of p] cc e obtain f2 l2 where
      r2: "combine_range n2 p tok = Inr (f2, l2)" "f2 \<in> set (first_candidates tok (children n))"
       "\<forall>x\<in>set (first_candidates tok (children n)). index f2 \<le> index x"
       "children n = [] \<longrightarrow> l2 = f2"
       "children n \<noteq> [] \<longrightarrow> l2 \<in> set (last_candidates (children n))
                 \<and> (\<forall>x\<in>set (last_candidates (children n)). index x \<le> index l2)"
      by auto
    from r(2,3) r2(2,3) have "index f2 = index f" by (auto intro: le_antisym)
    with inj r(2) r2(2) have fe: "f2 = f" by (auto dest: inj_onD)
    have "l2 = l"
    proof (cases "children n = []")
      case True
      with r(4) r2(4) fe show ?thesis by simp
    next
      case False
      with r(5) r2(5) have "index l2 = index l" "l \<in> set (last_candidates (children n))"
         "l2 \<in> set (last_candidates (children n))" by (auto intro: le_antisym)
      with inj show ?thesis by (auto dest: inj_onD)
    qed
    with fe r(1) r2(1) show ?thesis by simp
  qed
qed

theorem combiner_min_max_witness:
  "combine_range dict_node None (Some (Token OP ''{'' 1))
     = Inr (Token OP ''{'' 1, Token NAME ''d'' 10)
   \<and> combine_range dict_node_sorted None (Some (Token OP ''{'' 1))
     = combine_range dict_node None (Some (Token OP ''{'' 1))
   \<and> Min (index ` set (first_candidates (Some (Token OP ''{'' 1)) (children dict_node))) = 1
   \<and> Max (index ` set (last_candidates (children dict_node))) = 10
   \<and> combine_range (Node (Attrs (OtherNode ''Load'') 0 None None) [] None None)
        (Some (Token NAME ''a'' 2)) None = Inr (Token NAME ''a'' 2, Token NAME ''a'' 2)"
proof -
  have m: "\<forall>c\<in>set (children dict_node). marked c"
    by code_simp
  have s: "set (children dict_node_sorted) = set (children dict_node)"
    by (auto simp: dict_node_sorted_def dict_node_def)
  have i: "inj_on index (set (first_candidates (Some (Token OP ''{'' 1)) (children dict_node))
             \<union> set (last_candidates (children dict_node)))"
    by (auto simp: inj_on_def dict_node_def first_candidates_def last_candidates_def
          map_filter_def name_a_def name_b_def name_c_def name_d_def)
  have r: "combine_range dict_node None (Some (Token OP ''{'' 1))
     = Inr (Token OP ''{'' 1, Token NAME ''d'' 10)"
    by code_simp
  have ne: "children dict_node \<noteq> []"
    by (simp add: dict_node_def)
  note all = combiner_min_max[OF m, of "Some (Token OP ''{'' 1)" None dict_node_sorted]
  from all s i have "combine_range dict_node_sorted None (Some (Token OP ''{'' 1))
     = combine_range dict_node None (Some (Token OP ''{'' 1))"
    by blast
  moreover from all r ne have
    "Min (index ` set (first_candidates (Some (Token OP ''{'' 1)) (children dict_node))) = 1"
    "Max (index ` set (last_candidates (children dict_node))) = 10"
    by auto
  moreover have "combine_range (Node (Attrs (OtherNode ''Load'') 0 None None) [] None None)
        (Some (Token NAME ''a'' 2)) None = Inr (Token NAME ''a'' 2, Token NAME ''a'' 2)"
    using combiner_min_max[of "Node (Attrs (OtherNode ''Load'') 0 None None) [] None None"
        None "Some (Token NAME ''a'' 2)"]
    by simp
  ultimately show ?thesis using r by blast
qed

subsection \<open>C5: statements and the end of their line\<close>




subsection \<open>C4: the order of the expected closers and openers\<close>

text \<open>
  C4, as stated: the closers are expected in the order in which their openers were
  encountered and the openers in the reverse of the order in which their closers were
  encountered. On \<^verbatim>\<open>([x])\<close> the code does the opposite and succeeds where the stated
  orders raise: from the range \<^verbatim>\<open>([x\<close> it steps over \<^verbatim>\<open>]\<close> and then \<^verbatim>\<open>)\<close>, and from the range
  \<^verbatim>\<open>x])\<close> it steps back over \<^verbatim>\<open>[\<close> and then \<^verbatim>\<open>(\<close>.
\<close>

theorem stated_orders_counterexample:
  "scan_tokens (token_range nest_code (Token OP ''('' 0) (Token NAME ''x'' 2))
     = ([(OP, '')''), (OP, '']'')], [])
   \<and> expand_to_matching_pairs nest_code (Token OP ''('' 0) (Token NAME ''x'' 2) nest_leaf
     = Inr (Token OP ''('' 0, Token OP '')'' 4)
   \<and> expand_in_stated_order nest_code (Token OP ''('' 0) (Token NAME ''x'' 2) nest_leaf
     = Inl ValueError
   \<and> scan_tokens (token_range nest_code (Token NAME ''x'' 2) (Token OP '')'' 4))
     = ([], [(OP, ''[''), (OP, ''('')])
   \<and> expand_to_matching_pairs nest_code (Token NAME ''x'' 2) (Token OP '')'' 4) nest_leaf
     = Inr (Token OP ''('' 0, Token OP '')'' 4)
   \<and> expand_in_stated_order nest_code (Token NAME ''x'' 2) (Token OP '')'' 4) nest_leaf
     = Inl ValueError"
  by code_simp

text \<open>
  C4, amended: after the scan, \<^verbatim>\<open>last\<close> is advanced one token at a time, once for each
  delimiter left in the needs-closer list, taken in reverse encounter order (most recent
  first), and \<^verbatim>\<open>first\<close> is stepped back one token at a time, once for each delimiter in
  the needs-opener list, taken in encounter order; each token stepped onto is asserted to
  be the expected delimiter. So when the expansion returns, the \<open>k\<close>-th token after
  \<^verbatim>\<open>last\<close> is the \<open>k\<close>-th entry of the reversed needs-closer list and the \<open>k\<close>-th token
  before \<^verbatim>\<open>first\<close> is the \<open>k\<close>-th entry of the needs-opener list; and when the token
  after \<^verbatim>\<open>last\<close> is not the most recent expected closer, the expansion raises.
\<close>

theorem expansion_orders:
  assumes "iter_non_child_tokens c f l n = Inr toks"
    and "scan_tokens toks = (to_match_right, to_match_left)"
  shows "(expand_to_matching_pairs c f l n = Inr (f', l') \<longrightarrow>
            index l' = index l + length to_match_right
          \<and> (\<forall>k < length to_match_right.
                tok_info (tok_at c (index l + 1 + k)) = rev to_match_right ! k)
          \<and> index f' + length to_match_left = index f
          \<and> (\<forall>k < length to_match_left.
                tok_info (tok_at c (index f - 1 - k)) = to_match_left ! k))
       \<and> (to_match_right \<noteq> [] \<and> next_token c l = Inr t \<and> tok_info t \<noteq> last to_match_right
            \<longrightarrow> expand_to_matching_pairs c f l n = Inl ValueError)"
proof (intro conjI impI)
  note st = expand_stages[OF assms]
  {
    assume ok: "expand_to_matching_pairs c f l n = Inr (f', l')"
    with st have "ebind (extend_last c l (rev to_match_right)) (\<lambda>l'.
             ebind (extend_first c f to_match_left) (\<lambda>f'. Inr (f', l'))) = Inr (f', l')"
      by simp
    then obtain l2 where el2: "extend_last c l (rev to_match_right) = Inr l2"
      and "ebind (extend_first c f to_match_left) (\<lambda>f'. Inr (f', l2)) = Inr (f', l')"
      by (rule ebind_InrE)
    then obtain f2 where ef2: "extend_first c f to_match_left = Inr f2"
      and "Inr (f2, l2) = (Inr (f', l') :: error + token \<times> token)"
      by (auto elim: ebind_InrE)
    then have el: "extend_last c l (rev to_match_right) = Inr l'"
      and ef: "extend_first c f to_match_left = Inr f'"
      using el2 by simp_all
    from extend_last_index[OF el] show il: "index l' = index l + length to_match_right"
      by simp
    from extend_first_index[OF ef] show ifr: "index f' + length to_match_left = index f" .
    from extend_last_tokens[OF el]
    have ml: "map (\<lambda>i. tok_info (tok_at c i))
                [Suc (index l) ..< Suc (index l + length to_match_right)] = rev to_match_right"
      by simp
    show "\<forall>k < length to_match_right.
            tok_info (tok_at c (index l + 1 + k)) = rev to_match_right ! k"
    proof (intro allI impI)
      fix k assume k: "k < length to_match_right"
      then have "map (\<lambda>i. tok_info (tok_at c i))
                   [Suc (index l) ..< Suc (index l + length to_match_right)] ! k
                 = tok_info (tok_at c (index l + 1 + k))"
        by (simp del: upt_Suc)
      with ml show "tok_info (tok_at c (index l + 1 + k)) = rev to_match_right ! k"
        by simp
    qed
    from extend_first_tokens[OF ef]
    have mf: "map (\<lambda>i. tok_info (tok_at c i)) [index f' ..< index f] = rev to_match_left" .
    show "\<forall>k < length to_match_left.
            tok_info (tok_at c (index f - 1 - k)) = to_match_left ! k"
    proof (intro allI impI)
      fix k assume k: "k < length to_match_left"
      let ?j = "length to_match_left - 1 - k"
      from k ifr have j: "?j < length to_match_left" and pos: "index f' + ?j = index f - 1 - k"
        by arith+
      from j ifr have lt: "index f' + ?j < index f" and ln: "?j < index f - index f'"
        by arith+
      then have "map (\<lambda>i. tok_info (tok_at c i)) [index f' ..< index f] ! ?j
                 = tok_info (tok_at c (index f' + ?j))"
        by (simp del: upt_Suc)
      with mf pos have "tok_info (tok_at c (index f - 1 - k)) = rev to_match_left ! ?j"
        by simp
      also from k have "rev to_match_left ! ?j = to_match_left ! k"
        by (simp add: rev_nth)
      finally show "tok_info (tok_at c (index f - 1 - k)) = to_match_left ! k" .
    qed
  }
  {
    assume a: "to_match_right \<noteq> [] \<and> next_token c l = Inr t
                 \<and> tok_info t \<noteq> last to_match_right"
    then obtain ms where r: "rev to_match_right = last to_match_right # ms"
      by (cases to_match_right rule: rev_cases) auto
    from a have nt: "next_token c l = Inr t"
      by blast
    from a have ex: "expect_token t (fst (last to_match_right))
                       (Some (snd (last to_match_right))) = Inl ValueError"
      by (cases "last to_match_right")
         (auto simp: expect_token_def match_token_def tok_info_def)
    have "extend_last c l (rev to_match_right) = Inl ValueError"
      unfolding r using nt ex by simp
    with st show "expand_to_matching_pairs c f l n = Inl ValueError"
      by simp
  }
qed

theorem expansion_orders_witness:
  "expand_to_matching_pairs nest_code (Token OP ''['' 1) (Token OP '']'' 3) nest_leaf
     = Inr (Token OP ''['' 1, Token OP '']'' 3)
   \<and> expand_to_matching_pairs nest_code (Token OP ''('' 0) (Token NAME ''x'' 2) nest_leaf
     = Inr (Token OP ''('' 0, Token OP '')'' 4)
   \<and> tok_info (tok_at nest_code 3) = (OP, '']'') \<and> tok_info (tok_at nest_code 4) = (OP, '')'')
   \<and> expand_to_matching_pairs nest_code (Token NAME ''x'' 2) (Token OP '')'' 4) nest_leaf
     = Inr (Token OP ''('' 0, Token OP '')'' 4)
   \<and> tok_info (tok_at nest_code 1) = (OP, ''['') \<and> tok_info (tok_at nest_code 0) = (OP, ''('')
   \<and> expand_to_matching_pairs nest_code (Token OP ''('' 0) (Token OP ''['' 1) nest_leaf
     = Inl ValueError"
proof -
  have i1: "iter_non_child_tokens nest_code (Token OP ''('' 0) (Token NAME ''x'' 2) nest_leaf
              = Inr (token_range nest_code (Token OP ''('' 0) (Token NAME ''x'' 2))"
    and s1: "scan_tokens (token_range nest_code (Token OP ''('' 0) (Token NAME ''x'' 2))
              = ([(OP, '')''), (OP, '']'')], [])"
    and r1: "expand_to_matching_pairs nest_code (Token OP ''('' 0) (Token NAME ''x'' 2) nest_leaf
              = Inr (Token OP ''('' 0, Token OP '')'' 4)"
    by code_simp+
  from expansion_orders[OF i1 s1, where f' = "Token OP ''('' 0" and l' = "Token OP '')'' 4"] r1
  have c1: "\<forall>k < length [(OP, '')''), (OP, '']'')].
              tok_info (tok_at nest_code (index (Token NAME ''x'' 2) + 1 + k))
               = rev [(OP, '')''), (OP, '']'')] ! k"
    by blast
  from c1[rule_format, of 0] have a3: "tok_info (tok_at nest_code 3) = (OP, '']'')"
    by simp
  from c1[rule_format, of 1] have a4: "tok_info (tok_at nest_code 4) = (OP, '')'')"
    by simp
  have i2: "iter_non_child_tokens nest_code (Token NAME ''x'' 2) (Token OP '')'' 4) nest_leaf
              = Inr (token_range nest_code (Token NAME ''x'' 2) (Token OP '')'' 4))"
    and s2: "scan_tokens (token_range nest_code (Token NAME ''x'' 2) (Token OP '')'' 4))
              = ([], [(OP, ''[''), (OP, ''('')])"
    and r2: "expand_to_matching_pairs nest_code (Token NAME ''x'' 2) (Token OP '')'' 4) nest_leaf
              = Inr (Token OP ''('' 0, Token OP '')'' 4)"
    by code_simp+
  from expansion_orders[OF i2 s2, where f' = "Token OP ''('' 0" and l' = "Token OP '')'' 4"] r2
  have c2: "\<forall>k < length [(OP, ''[''), (OP, ''('')].
              tok_info (tok_at nest_code (index (Token NAME ''x'' 2) - 1 - k))
               = [(OP, ''[''), (OP, ''('')] ! k"
    by blast
  from c2[rule_format, of 0] have b1: "tok_info (tok_at nest_code 1) = (OP, ''['')"
    by simp
  from c2[rule_format, of 1] have b0: "tok_info (tok_at nest_code 0) = (OP, ''('')"
    by simp
  have i3: "iter_non_child_tokens nest_code (Token OP ''('' 0) (Token OP ''['' 1) nest_leaf
              = Inr (token_range nest_code (Token OP ''('' 0) (Token OP ''['' 1))"
    and s3: "scan_tokens (token_range nest_code (Token OP ''('' 0) (Token OP ''['' 1))
              = ([(OP, '')''), (OP, '']'')], [])"
    and n3: "next_token nest_code (Token OP ''['' 1) = Inr (Token NAME ''x'' 2)"
    by code_simp+
  from expansion_orders[OF i3 s3, where t = "Token NAME ''x'' 2"] n3
  have r3: "expand_to_matching_pairs nest_code (Token OP ''('' 0) (Token OP ''['' 1) nest_leaf
              = Inl ValueError"
    by (simp add: tok_info_def)
  have r0: "expand_to_matching_pairs nest_code (Token OP ''['' 1) (Token OP '']'' 3) nest_leaf
     = Inr (Token OP ''['' 1, Token OP '']'' 3)"
    by code_simp
  from r0 r1 a3 a4 r2 b1 b0 r3 show ?thesis by blast
qed

subsection \<open>C2 and C3: children listed out of source order\<close>

text \<open>
  C3 at the \<^verbatim>\<open>Dict\<close> node of \<^verbatim>\<open>({a: (b), c: d})\<close>, whose children are listed keys first.
  Between \<^verbatim>\<open>{\<close> and \<^verbatim>\<open>d\<close> the generator yields the tokens \<^verbatim>\<open>b\<close> and \<^verbatim>\<open>c\<close>, which belong
  to children, and yields \<^verbatim>\<open>)\<close> and \<^verbatim>\<open>,\<close> twice; the tokens outside the children's ranges
  are the six of \<open>gap_tokens\<close>. With the same children in source order it yields exactly
  those six.
\<close>

theorem scan_yields_child_tokens:
  "iter_non_child_tokens dict_code (Token OP ''{'' 1) (Token NAME ''d'' 10) dict_node
     = Inr [Token OP ''{'' 1, Token OP '':'' 3, Token OP ''('' 4, Token NAME ''b'' 5,
            Token OP '')'' 6, Token OP '','' 7, Token OP '')'' 6, Token OP '','' 7,
            Token NAME ''c'' 8, Token OP '':'' 9]
   \<and> gap_tokens dict_code (Token OP ''{'' 1) (Token NAME ''d'' 10) dict_node
     = [Token OP ''{'' 1, Token OP '':'' 3, Token OP ''('' 4, Token OP '')'' 6,
        Token OP '','' 7, Token OP '':'' 9]
   \<and> in_child_range name_b (Token NAME ''b'' 5)
   \<and> in_child_range name_c (Token NAME ''c'' 8)
   \<and> iter_non_child_tokens dict_code (Token OP ''{'' 1) (Token NAME ''d'' 10) dict_node_sorted
     = Inr (gap_tokens dict_code (Token OP ''{'' 1) (Token NAME ''d'' 10) dict_node_sorted)"
  by code_simp

text \<open>
  C2 on the same input: the pass gives the \<^verbatim>\<open>Dict\<close> node the range from the \<^verbatim>\<open>(\<close> at
  index 0 to the \<^verbatim>\<open>}\<close> at index 11, which holds two opening parentheses and one closing
  parenthesis. The second \<^verbatim>\<open>)\<close> of the scan above is taken for an unmatched closer and the
  range is extended backwards over the \<^verbatim>\<open>(\<close> before the \<^verbatim>\<open>{\<close>. With the children in source
  order the node gets the balanced range from \<^verbatim>\<open>{\<close> to \<^verbatim>\<open>}\<close>.
\<close>

theorem dict_range_unbalanced:
  "visit_tree dict_self dict_tree = Inr dict_marked
   \<and> first_token dict_marked = Some (Token OP ''('' 0)
   \<and> last_token dict_marked = Some (Token OP ''}'' 11)
   \<and> count_delimiter dict_code (Token OP ''('' 0) (Token OP ''}'' 11) (OP, ''('') = 2
   \<and> count_delimiter dict_code (Token OP ''('' 0) (Token OP ''}'' 11) (OP, '')'') = 1
   \<and> visit_after_children dict_self dict_node_sorted None (Some (Token OP ''{'' 1))
     = Inr (Node (Attrs (OtherNode ''Dict'') 1 (Some 1) None) [name_a, name_b, name_c, name_d]
              (Some (Token OP ''{'' 1)) (Some (Token OP ''}'' 11)))
   \<and> count_delimiter dict_code (Token OP ''{'' 1) (Token OP ''}'' 11) (OP, ''('') = 1
   \<and> count_delimiter dict_code (Token OP ''{'' 1) (Token OP ''}'' 11) (OP, '')'') = 1"
  by code_simp

subsection \<open>C7: failures at the ends of the stream\<close>

text \<open>
  C7, as stated: every attempt to step past an end of the stream is surfaced and ends the
  marking of the tree. Two places in the code catch the failure. In \<^verbatim>\<open>visit_tuple\<close> there
  is no token after \<^verbatim>\<open>y\<close>, \<^verbatim>\<open>next_token\<close> raises, and the pass on the tuple node still
  completes with the range unchanged. In \<^verbatim>\<open>_find_last_in_line\<close> the search for a newline
  runs off the end of the stream, and the search is made again for the end marker.
\<close>

theorem boundary_failure_swallowed_counterexample:
  "next_token tuple_code (Token NAME ''y'' 3) = Inl IndexError
   \<and> visit_tuple tuple_code tuple_tree (Token NAME ''x'' 1) (Token NAME ''y'' 3)
     = Inr (Token NAME ''x'' 1, Token NAME ''y'' 3)
   \<and> visit_tree \<lparr>code = tuple_code, py2 = False\<rparr> tuple_tree = Inr tuple_marked
   \<and> find_token pass_code (Token NAME ''pass'' 0) NEWLINE None False = Inl IndexError
   \<and> find_last_in_line pass_code (Token NAME ''pass'' 0) = Inr (Token NAME ''pass'' 0)
   \<and> visit_tree \<lparr>code = pass_code, py2 = False\<rparr> pass_node
     = Inr (Node (Attrs (OtherStmt ''Pass'') 1 (Some 0) None) []
              (Some (Token NAME ''pass'' 0)) (Some (Token NAME ''pass'' 0)))"
  by code_simp

text \<open>
  C7, amended: outside the two handlers above, a step past an end of the stream is the
  result of the function that makes it, at whatever round of a loop it is made, and it
  ends the marking of the whole tree.

    \<^item> The two handlers: \<^verbatim>\<open>visit_tuple\<close> returns its range unchanged when \<^verbatim>\<open>next_token\<close>
      fails, and in \<^verbatim>\<open>_find_last_in_line\<close> the failed search for a newline is followed by
      the search for the end marker.
    \<^item> The visitors: a failing \<^verbatim>\<open>prev_token\<close>, \<^verbatim>\<open>next_token\<close> or \<^verbatim>\<open>find_token\<close> is the
      result of \<^verbatim>\<open>handle_comp\<close>, \<^verbatim>\<open>visit_comprehension\<close>, \<^verbatim>\<open>handle_attr\<close>, \<^verbatim>\<open>visit_call\<close>,
      \<^verbatim>\<open>visit_subscript\<close> and \<^verbatim>\<open>visit_keyword\<close>; \<^verbatim>\<open>visit_num\<close> raises when the last token
      and every token after it is an operator, however many there are; and the table of
      visitors hands each of them the node without a handler of its own.
    \<^item> The loops of the bracket repair: when the tokens after \<open>l\<close>, to the end of the
      stream, are the closers wanted, in order, and more closers are wanted than there
      are tokens, the loop that extends the last token raises; the same for the loop that
      extends the first token and the tokens before \<open>f\<close>, back to the start of the
      stream. The scan raises at whatever child a step around the child fails, when the
      loop has gone past the children before it.
    \<^item> \<^verbatim>\<open>_find_last_in_line\<close>: a failing step back from the token found, and a failing
      search for the end marker, are its result.
    \<^item> \<^verbatim>\<open>_visit_after_children\<close>: a failure of the scan or of either loop is the result
      of \<^verbatim>\<open>_expand_to_matching_pairs\<close>, and a failure of any of the four stages is the
      result of the post-visit step.
    \<^item> The walk: when the children of a node have been marked and its post-visit step
      fails, the visit of the node fails with that error; the first failing node of a
      list of siblings ends the visit of the list with its error; when that happens at
      any node of the tree, the pass on the tree fails. A pass that returns a tree has
      run every stage of the post-visit step of every node without a failure, and the
      error of a pass that fails is the error of the post-visit step of one of its
      nodes.
\<close>

theorem boundary_failures_surface:
  "(next_token c l = Inl e \<longrightarrow> visit_tuple c n f l = Inr (f, l))
   \<and> (find_token c l NEWLINE None False = Inl e \<longrightarrow>
        find_last_in_line c l = ebind (find_token c l ENDMARKER None False) (prev_token c))
   \<and> (prev_token c f = Inl e \<longrightarrow> handle_comp c b n f l = Inl e)
   \<and> (find_token c f NAME (Some ''for'') True = Inl e \<longrightarrow> visit_comprehension c n f l = Inl e)
   \<and> (find_token c l OP (Some ''.'') False = Inl e \<longrightarrow> handle_attr c n f l = Inl e)
   \<and> (find_token c l OP (Some ''.'') False = Inr d \<and> next_token c d = Inl e
        \<longrightarrow> handle_attr c n f l = Inl e)
   \<and> (find_token c l OP (Some '')'') False = Inl e \<longrightarrow> visit_call c n f l = Inl e)
   \<and> (find_token c l OP (Some '']'') False = Inl e \<longrightarrow> visit_subscript c n f l = Inl e)
   \<and> (tok_type l = OP \<and> list_all (\<lambda>x. lex_type x = OP) (drop (Suc (index l)) c)
        \<longrightarrow> visit_num c n f l = Inl IndexError)
   \<and> (arg (attrs n) = Some a \<and> find_token c f OP (Some ''='') True = Inl e
        \<longrightarrow> visit_keyword c n f l = Inl e)
   \<and> (arg (attrs n) = Some a \<and> find_token c f OP (Some ''='') True = Inr q
        \<and> prev_token c q = Inl e \<longrightarrow> visit_keyword c n f l = Inl e)
   \<and> (length c - Suc (index l) < length ms
        \<and> map (\<lambda>i. tok_info (tok_at c i)) [Suc (index l) ..< length c]
            = take (length c - Suc (index l)) ms
        \<longrightarrow> extend_last c l ms = Inl IndexError)
   \<and> (index f < length ms
        \<and> map (\<lambda>i. tok_info (tok_at c i)) (rev [0 ..< index f]) = take (index f) ms
        \<longrightarrow> extend_first c f ms = Inl IndexError)
   \<and> (list_all (passes_child c l) pre \<and> first_token ch = Some cf \<and> prev_token c cf = Inl e
        \<longrightarrow> iter_non_child_tokens_from c t l (pre @ ch # rest) = Inl e)
   \<and> (list_all (passes_child c l) pre \<and> first_token ch = Some cf \<and> prev_token c cf = Inr q
        \<and> last_token ch = Some cl \<and> index cl < index l \<and> next_token c cl = Inl e
        \<longrightarrow> iter_non_child_tokens_from c t l (pre @ ch # rest) = Inl e)
   \<and> (find_token c l NEWLINE None False = Inr nl \<and> prev_token c nl = Inl e
        \<longrightarrow> find_last_in_line c l = Inl e)
   \<and> (find_token c l NEWLINE None False = Inl e' \<and> find_token c l ENDMARKER None False = Inl e
        \<longrightarrow> find_last_in_line c l = Inl e)
   \<and> (find_token c l NEWLINE None False = Inl e' \<and> find_token c l ENDMARKER None False = Inr nl
        \<and> prev_token c nl = Inl e \<longrightarrow> find_last_in_line c l = Inl e)
   \<and> (iter_non_child_tokens c f l n = Inl e \<longrightarrow> expand_to_matching_pairs c f l n = Inl e)
   \<and> (iter_non_child_tokens c f l n = Inr toks
        \<and> extend_last c l (rev (fst (scan_tokens toks))) = Inl e
        \<longrightarrow> expand_to_matching_pairs c f l n = Inl e)
   \<and> (iter_non_child_tokens c f l n = Inr toks
        \<and> extend_last c l (rev (fst (scan_tokens toks))) = Inr la
        \<and> extend_first c f (snd (scan_tokens toks)) = Inl e
        \<longrightarrow> expand_to_matching_pairs c f l n = Inl e)
   \<and> (combine_range n p tok = Inr (f, l) \<and> is_stmt (cls (attrs n))
        \<and> find_last_in_line (code self) l = Inl e
        \<longrightarrow> preliminary_range self n p tok = Inl e)
   \<and> (preliminary_range self n p tok = Inl e \<longrightarrow> visit_after_children self n p tok = Inl e)
   \<and> (preliminary_range self n p tok = Inr (f, l)
        \<and> expand_to_matching_pairs (code self) f l n = Inl e
        \<longrightarrow> visit_after_children self n p tok = Inl e)
   \<and> (preliminary_range self n p tok = Inr (f, l)
        \<and> expand_to_matching_pairs (code self) f l n = Inr (fa, la)
        \<and> methods_get self (cls (attrs n)) n fa la = Inl e
        \<longrightarrow> visit_after_children self n p tok = Inl e)
   \<and> (preliminary_range self n p tok = Inr (f, l)
        \<and> expand_to_matching_pairs (code self) f l n = Inr (fa, la)
        \<and> methods_get self (cls (attrs n)) n fa la = Inr (fb, lb) \<and> (fb, lb) \<noteq> (fa, la)
        \<and> expand_to_matching_pairs (code self) fb lb n = Inl e
        \<longrightarrow> visit_after_children self n p tok = Inl e)
   \<and> (methods_get self ListComp = handle_comp (code self) ''[''
        \<and> methods_get self Comprehension = visit_comprehension (code self)
        \<and> methods_get self Attribute = handle_attr (code self)
        \<and> methods_get self AssignAttr = handle_attr (code self)
        \<and> methods_get self DelAttr = handle_attr (code self)
        \<and> methods_get self Call = visit_call (code self)
        \<and> methods_get self Subscript = visit_subscript (code self)
        \<and> methods_get self Tuple = visit_tuple (code self)
        \<and> methods_get self Num = visit_num (code self)
        \<and> methods_get self Keyword = visit_keyword (code self)
        \<and> (py2 self \<longrightarrow>
             methods_get self SetComp = handle_comp (code self) ''{''
             \<and> methods_get self DictComp = handle_comp (code self) ''{''))
   \<and> (visit_nodes self (fst (visit_before_children self at p)) cs = Inr cs'
        \<and> visit_after_children self (Node at cs' fo lo) p (snd (visit_before_children self at p)) = Inl e
        \<longrightarrow> visit_node self p (Node at cs fo lo) = Inl e)
   \<and> (visit_nodes self pv pre = Inr pre' \<and> visit_node self pv n = Inl e
        \<longrightarrow> visit_nodes self pv (pre @ n # rest) = Inl e)
   \<and> ((pt, Node at cs fo lo) \<in> set (visits self None root)
        \<and> visit_nodes self (fst (visit_before_children self at pt)) cs = Inr cs'
        \<and> visit_after_children self (Node at cs' fo lo) pt (snd (visit_before_children self at pt)) = Inl e
        \<longrightarrow> (\<exists>e'. visit_tree self root = Inl e'))
   \<and> (visit_tree self root = Inr root' \<and> (pt, Node at cs fo lo) \<in> set (visits self None root)
        \<longrightarrow> (\<exists>cs' pf pl fa' la' fb' lb' fc lc.
              visit_nodes self (fst (visit_before_children self at pt)) cs = Inr cs'
            \<and> preliminary_range self (Node at cs' fo lo) pt (snd (visit_before_children self at pt))
                = Inr (pf, pl)
            \<and> expand_to_matching_pairs (code self) pf pl (Node at cs' fo lo) = Inr (fa', la')
            \<and> methods_get self (cls at) (Node at cs' fo lo) fa' la' = Inr (fb', lb')
            \<and> (if (fb', lb') \<noteq> (fa', la')
               then expand_to_matching_pairs (code self) fb' lb' (Node at cs' fo lo)
               else Inr (fb', lb')) = Inr (fc, lc)))
   \<and> (visit_tree self root = Inl e
        \<longrightarrow> (\<exists>pt at cs fo lo cs'. (pt, Node at cs fo lo) \<in> set (visits self None root)
            \<and> visit_nodes self (fst (visit_before_children self at pt)) cs = Inr cs'
            \<and> visit_after_children self (Node at cs' fo lo) pt (snd (visit_before_children self at pt))
                = Inl e))"
proof -
  have ix: "x = IndexError" if "next_token c y = Inl x" for x y
    using that by (rule next_token_error)
  have fx: "x = IndexError" if "find_token c y k s r = Inl x" for x y k s r
    using that by (rule find_token_error)
  have sa: "next_token c l = Inl e \<longrightarrow> visit_tuple c n f l = Inr (f, l)"
    by (auto simp: visit_tuple_def dest: ix)
  have sb: "find_token c l NEWLINE None False = Inl e \<longrightarrow>
        find_last_in_line c l = ebind (find_token c l ENDMARKER None False) (prev_token c)"
    by (auto simp: find_last_in_line_def dest: fx)
  have sc: "prev_token c f = Inl e \<longrightarrow> handle_comp c b n f l = Inl e"
    by (simp add: handle_comp_def)
  have sd: "find_token c f NAME (Some ''for'') True = Inl e \<longrightarrow> visit_comprehension c n f l = Inl e"
    by (simp add: visit_comprehension_def)
  have se: "find_token c l OP (Some ''.'') False = Inl e \<longrightarrow> handle_attr c n f l = Inl e"
    by (simp add: handle_attr_def)
  have sf: "find_token c l OP (Some ''.'') False = Inr d \<and> next_token c d = Inl e
        \<longrightarrow> handle_attr c n f l = Inl e"
    by (simp add: handle_attr_def)
  have sg: "find_token c l OP (Some '')'') False = Inl e \<longrightarrow> visit_call c n f l = Inl e"
    by (simp add: visit_call_def)
  have sh: "find_token c l OP (Some '']'') False = Inl e \<longrightarrow> visit_subscript c n f l = Inl e"
    by (simp add: visit_subscript_def)
  have si: "tok_type l = OP \<and> list_all (\<lambda>x. lex_type x = OP) (drop (Suc (index l)) c)
        \<longrightarrow> visit_num c n f l = Inl IndexError"
    by (simp add: visit_num_def visit_num_loop_runs_off)
  have sj: "arg (attrs n) = Some a \<and> find_token c f OP (Some ''='') True = Inl e
        \<longrightarrow> visit_keyword c n f l = Inl e"
    by (simp add: visit_keyword_def)
  have sk: "arg (attrs n) = Some a \<and> find_token c f OP (Some ''='') True = Inr q
        \<and> prev_token c q = Inl e \<longrightarrow> visit_keyword c n f l = Inl e"
    by (simp add: visit_keyword_def)
  have sl: "length c - Suc (index l) < length ms
        \<and> map (\<lambda>i. tok_info (tok_at c i)) [Suc (index l) ..< length c]
            = take (length c - Suc (index l)) ms
        \<longrightarrow> extend_last c l ms = Inl IndexError"
    using extend_last_runs_off[of c l ms] by blast
  have sm: "index f < length ms
        \<and> map (\<lambda>i. tok_info (tok_at c i)) (rev [0 ..< index f]) = take (index f) ms
        \<longrightarrow> extend_first c f ms = Inl IndexError"
    using extend_first_runs_off[of f ms c] by blast
  have sn: "list_all (passes_child c l) pre \<and> first_token ch = Some cf \<and> prev_token c cf = Inl e
        \<longrightarrow> iter_non_child_tokens_from c t l (pre @ ch # rest) = Inl e"
    using scan_fails_before[of c l pre ch cf e t rest] by blast
  have so: "list_all (passes_child c l) pre \<and> first_token ch = Some cf \<and> prev_token c cf = Inr q
        \<and> last_token ch = Some cl \<and> index cl < index l \<and> next_token c cl = Inl e
        \<longrightarrow> iter_non_child_tokens_from c t l (pre @ ch # rest) = Inl e"
    using scan_fails_after[of c l pre ch cf q cl e t rest] by blast
  have sp: "find_token c l NEWLINE None False = Inr nl \<and> prev_token c nl = Inl e
        \<longrightarrow> find_last_in_line c l = Inl e"
    by (simp add: find_last_in_line_def)
  have sq: "find_token c l NEWLINE None False = Inl e' \<and> find_token c l ENDMARKER None False = Inl e
        \<longrightarrow> find_last_in_line c l = Inl e"
    by (auto simp: find_last_in_line_def dest: fx)
  have sr: "find_token c l NEWLINE None False = Inl e' \<and> find_token c l ENDMARKER None False = Inr nl
        \<and> prev_token c nl = Inl e \<longrightarrow> find_last_in_line c l = Inl e"
    by (auto simp: find_last_in_line_def dest: fx)
  have ss: "iter_non_child_tokens c f l n = Inl e \<longrightarrow> expand_to_matching_pairs c f l n = Inl e"
    by (simp add: expand_to_matching_pairs_def)
  have st: "iter_non_child_tokens c f l n = Inr toks
        \<and> extend_last c l (rev (fst (scan_tokens toks))) = Inl e
        \<longrightarrow> expand_to_matching_pairs c f l n = Inl e"
    by (simp add: expand_to_matching_pairs_def split: prod.splits)
  have su: "iter_non_child_tokens c f l n = Inr toks
        \<and> extend_last c l (rev (fst (scan_tokens toks))) = Inr la
        \<and> extend_first c f (snd (scan_tokens toks)) = Inl e
        \<longrightarrow> expand_to_matching_pairs c f l n = Inl e"
    by (simp add: expand_to_matching_pairs_def split: prod.splits)
  have sv: "combine_range n p tok = Inr (f, l) \<and> is_stmt (cls (attrs n))
        \<and> find_last_in_line (code self) l = Inl e
        \<longrightarrow> preliminary_range self n p tok = Inl e"
    by (simp add: preliminary_range_def)
  have sw: "preliminary_range self n p tok = Inl e \<longrightarrow> visit_after_children self n p tok = Inl e"
    by (simp add: visit_after_children_def)
  have sx: "preliminary_range self n p tok = Inr (f, l)
        \<and> expand_to_matching_pairs (code self) f l n = Inl e
        \<longrightarrow> visit_after_children self n p tok = Inl e"
    by (simp add: visit_after_children_def)
  have sy: "preliminary_range self n p tok = Inr (f, l)
        \<and> expand_to_matching_pairs (code self) f l n = Inr (fa, la)
        \<and> methods_get self (cls (attrs n)) n fa la = Inl e
        \<longrightarrow> visit_after_children self n p tok = Inl e"
    by (simp add: visit_after_children_def)
  have sz: "preliminary_range self n p tok = Inr (f, l)
        \<and> expand_to_matching_pairs (code self) f l n = Inr (fa, la)
        \<and> methods_get self (cls (attrs n)) n fa la = Inr (fb, lb) \<and> (fb, lb) \<noteq> (fa, la)
        \<and> expand_to_matching_pairs (code self) fb lb n = Inl e
        \<longrightarrow> visit_after_children self n p tok = Inl e"
    by (auto simp: visit_after_children_def)
  have sA: "methods_get self ListComp = handle_comp (code self) ''[''
        \<and> methods_get self Comprehension = visit_comprehension (code self)
        \<and> methods_get self Attribute = handle_attr (code self)
        \<and> methods_get self AssignAttr = handle_attr (code self)
        \<and> methods_get self DelAttr = handle_attr (code self)
        \<and> methods_get self Call = visit_call (code self)
        \<and> methods_get self Subscript = visit_subscript (code self)
        \<and> methods_get self Tuple = visit_tuple (code self)
        \<and> methods_get self Num = visit_num (code self)
        \<and> methods_get self Keyword = visit_keyword (code self)
        \<and> (py2 self \<longrightarrow>
             methods_get self SetComp = handle_comp (code self) ''{''
             \<and> methods_get self DictComp = handle_comp (code self) ''{'')"
    by (simp add: methods_get_def visit_listcomp_def visit_setcomp_def visit_dictcomp_def fun_eq_iff)
  have sB: "visit_nodes self (fst (visit_before_children self at p)) cs = Inr cs'
        \<and> visit_after_children self (Node at cs' fo lo) p (snd (visit_before_children self at p)) = Inl e
        \<longrightarrow> visit_node self p (Node at cs fo lo) = Inl e"
    by simp
  have sC: "visit_nodes self pv pre = Inr pre' \<and> visit_node self pv n = Inl e
        \<longrightarrow> visit_nodes self pv (pre @ n # rest) = Inl e"
    using visit_nodes_first_failure[of self pv pre pre' n e rest] by blast
  have sD: "(pt, Node at cs fo lo) \<in> set (visits self None root)
        \<and> visit_nodes self (fst (visit_before_children self at pt)) cs = Inr cs'
        \<and> visit_after_children self (Node at cs' fo lo) pt (snd (visit_before_children self at pt)) = Inl e
        \<longrightarrow> (\<exists>e'. visit_tree self root = Inl e')"
  proof
    assume h: "(pt, Node at cs fo lo) \<in> set (visits self None root)
        \<and> visit_nodes self (fst (visit_before_children self at pt)) cs = Inr cs'
        \<and> visit_after_children self (Node at cs' fo lo) pt (snd (visit_before_children self at pt)) = Inl e"
    then have "visit_node self pt (Node at cs fo lo) = Inl e"
      by simp
    with h visits_abort[of pt "Node at cs fo lo" self None root e]
    show "\<exists>e'. visit_tree self root = Inl e'"
      by (auto simp: visit_tree_def)
  qed
  have sE: "visit_tree self root = Inr root' \<and> (pt, Node at cs fo lo) \<in> set (visits self None root)
        \<longrightarrow> (\<exists>cs' pf pl fa' la' fb' lb' fc lc.
              visit_nodes self (fst (visit_before_children self at pt)) cs = Inr cs'
            \<and> preliminary_range self (Node at cs' fo lo) pt (snd (visit_before_children self at pt))
                = Inr (pf, pl)
            \<and> expand_to_matching_pairs (code self) pf pl (Node at cs' fo lo) = Inr (fa', la')
            \<and> methods_get self (cls at) (Node at cs' fo lo) fa' la' = Inr (fb', lb')
            \<and> (if (fb', lb') \<noteq> (fa', la')
               then expand_to_matching_pairs (code self) fb' lb' (Node at cs' fo lo)
               else Inr (fb', lb')) = Inr (fc, lc))"
  proof
    assume h: "visit_tree self root = Inr root' \<and> (pt, Node at cs fo lo) \<in> set (visits self None root)"
    then have ok: "visit_node self None root = Inr root'"
      and v: "(pt, Node at cs fo lo) \<in> set (visits self None root)"
      by (simp_all add: visit_tree_def)
    from visits_all_succeed[OF ok v] obtain cs' m where
      cs': "visit_nodes self (fst (visit_before_children self at pt)) cs = Inr cs'"
      and m: "visit_after_children self (Node at cs' fo lo) pt
                (snd (visit_before_children self at pt)) = Inr m"
      by blast
    from visit_after_children_stages[OF m] cs'
    show "(\<exists>cs' pf pl fa' la' fb' lb' fc lc.
              visit_nodes self (fst (visit_before_children self at pt)) cs = Inr cs'
            \<and> preliminary_range self (Node at cs' fo lo) pt (snd (visit_before_children self at pt))
                = Inr (pf, pl)
            \<and> expand_to_matching_pairs (code self) pf pl (Node at cs' fo lo) = Inr (fa', la')
            \<and> methods_get self (cls at) (Node at cs' fo lo) fa' la' = Inr (fb', lb')
            \<and> (if (fb', lb') \<noteq> (fa', la')
               then expand_to_matching_pairs (code self) fb' lb' (Node at cs' fo lo)
               else Inr (fb', lb')) = Inr (fc, lc))"
      by (simp only: node.sel) blast
  qed
  have sF: "visit_tree self root = Inl e
        \<longrightarrow> (\<exists>pt at cs fo lo cs'. (pt, Node at cs fo lo) \<in> set (visits self None root)
            \<and> visit_nodes self (fst (visit_before_children self at pt)) cs = Inr cs'
            \<and> visit_after_children self (Node at cs' fo lo) pt (snd (visit_before_children self at pt))
                = Inl e)"
  proof
    assume "visit_tree self root = Inl e"
    then have "visit_node self None root = Inl e"
      by (simp add: visit_tree_def)
    from visit_node_failure_origin[OF this]
    show "(\<exists>pt at cs fo lo cs'. (pt, Node at cs fo lo) \<in> set (visits self None root)
            \<and> visit_nodes self (fst (visit_before_children self at pt)) cs = Inr cs'
            \<and> visit_after_children self (Node at cs' fo lo) pt (snd (visit_before_children self at pt))
                = Inl e)"
      by blast
  qed
  show ?thesis
    by (rule conjI, rule sa,
        rule conjI, rule sb,
        rule conjI, rule sc,
        rule conjI, rule sd,
        rule conjI, rule se,
        rule conjI, rule sf,
        rule conjI, rule sg,
        rule conjI, rule sh,
        rule conjI, rule si,
        rule conjI, rule sj,
        rule conjI, rule sk,
        rule conjI, rule sl,
        rule conjI, rule sm,
        rule conjI, rule sn,
        rule conjI, rule so,
        rule conjI, rule sp,
        rule conjI, rule sq,
        rule conjI, rule sr,
        rule conjI, rule ss,
        rule conjI, rule st,
        rule conjI, rule su,
        rule conjI, rule sv,
        rule conjI, rule sw,
        rule conjI, rule sx,
        rule conjI, rule sy,
        rule conjI, rule sz,
        rule conjI, rule sA,
        rule conjI, rule sB,
        rule conjI, rule sC,
        rule conjI, rule sD,
        rule conjI, rule sE,
        rule sF)
qed

theorem boundary_failures_surface_witness:
  "visit_tuple one_code one_leaf one_tok one_tok = Inr (one_tok, one_tok)
   \<and> find_last_in_line pass_code (Token NAME ''pass'' 0) = ebind (find_token pass_code (Token NAME ''pass'' 0) ENDMARKER None False) (prev_token pass_code)
   \<and> handle_comp one_code ''['' one_comp one_tok one_tok = Inl IndexError
   \<and> visit_comprehension one_code one_leaf one_tok one_tok = Inl IndexError
   \<and> handle_attr one_code one_leaf one_tok one_tok = Inl IndexError
   \<and> handle_attr [Lexeme NAME ''x'' (1, 0), Lexeme OP ''.'' (1, 1)] one_leaf one_tok one_tok = Inl IndexError
   \<and> visit_call one_code one_leaf one_tok one_tok = Inl IndexError
   \<and> visit_subscript one_code one_leaf one_tok one_tok = Inl IndexError
   \<and> visit_num [Lexeme OP ''-'' (1, 0), Lexeme OP ''-'' (1, 1)] one_leaf (Token OP ''-'' 0) (Token OP ''-'' 0) = Inl IndexError
   \<and> visit_keyword one_code one_keyword one_tok one_tok = Inl IndexError
   \<and> visit_keyword [Lexeme OP ''='' (1, 0)] one_keyword (Token OP ''='' 0) (Token OP ''='' 0) = Inl IndexError
   \<and> extend_last open_code (Token NAME ''x'' 2) [(OP, '']''), (OP, '')'')] = Inl IndexError
   \<and> extend_first [Lexeme OP ''('' (1, 0), Lexeme NAME ''x'' (1, 1)] (Token NAME ''x'' 1) [(OP, ''(''), (OP, ''['')] = Inl IndexError
   \<and> iter_non_child_tokens_from names_code one_tok (Token NAME ''z'' 2) ([names_y] @ names_x # []) = Inl IndexError
   \<and> iter_non_child_tokens_from names_code one_tok (Token NAME ''w'' 5) ([names_y] @ names_z # []) = Inl IndexError
   \<and> find_last_in_line [Lexeme NEWLINE [] (1, 0)] (Token NEWLINE [] 0) = Inl IndexError
   \<and> find_last_in_line one_code one_tok = Inl IndexError
   \<and> find_last_in_line [Lexeme ENDMARKER [] (1, 0)] (Token ENDMARKER [] 0) = Inl IndexError
   \<and> expand_to_matching_pairs one_code one_tok one_tok one_parent = Inl IndexError
   \<and> expand_to_matching_pairs [Lexeme OP ''('' (1, 0)] (Token OP ''('' 0) (Token OP ''('' 0) one_leaf = Inl IndexError
   \<and> expand_to_matching_pairs [Lexeme OP '')'' (1, 0)] (Token OP '')'' 0) (Token OP '')'' 0) one_leaf = Inl IndexError
   \<and> preliminary_range \<lparr>code = one_code, py2 = False\<rparr> one_stmt None (Some one_tok) = Inl IndexError
   \<and> visit_after_children \<lparr>code = one_code, py2 = False\<rparr> one_stmt None (Some one_tok) = Inl IndexError
   \<and> visit_after_children \<lparr>code = one_code, py2 = False\<rparr> one_parent None (Some one_tok) = Inl IndexError
   \<and> visit_after_children \<lparr>code = one_code, py2 = False\<rparr> one_comp None (Some one_tok) = Inl IndexError
   \<and> visit_after_children \<lparr>code = [Lexeme NAME ''f'' (1, 0), Lexeme OP '')'' (1, 1)], py2 = False\<rparr> (Node (Attrs Call 1 (Some 0) None) [] None None) None (Some (Token NAME ''f'' 0)) = Inl IndexError
   \<and> (methods_get \<lparr>code = one_code, py2 = True\<rparr> ListComp = handle_comp (code \<lparr>code = one_code, py2 = True\<rparr>) ''[''
        \<and> methods_get \<lparr>code = one_code, py2 = True\<rparr> Comprehension = visit_comprehension (code \<lparr>code = one_code, py2 = True\<rparr>)
        \<and> methods_get \<lparr>code = one_code, py2 = True\<rparr> Attribute = handle_attr (code \<lparr>code = one_code, py2 = True\<rparr>)
        \<and> methods_get \<lparr>code = one_code, py2 = True\<rparr> AssignAttr = handle_attr (code \<lparr>code = one_code, py2 = True\<rparr>)
        \<and> methods_get \<lparr>code = one_code, py2 = True\<rparr> DelAttr = handle_attr (code \<lparr>code = one_code, py2 = True\<rparr>)
        \<and> methods_get \<lparr>code = one_code, py2 = True\<rparr> Call = visit_call (code \<lparr>code = one_code, py2 = True\<rparr>)
        \<and> methods_get \<lparr>code = one_code, py2 = True\<rparr> Subscript = visit_subscript (code \<lparr>code = one_code, py2 = True\<rparr>)
        \<and> methods_get \<lparr>code = one_code, py2 = True\<rparr> Tuple = visit_tuple (code \<lparr>code = one_code, py2 = True\<rparr>)
        \<and> methods_get \<lparr>code = one_code, py2 = True\<rparr> Num = visit_num (code \<lparr>code = one_code, py2 = True\<rparr>)
        \<and> methods_get \<lparr>code = one_code, py2 = True\<rparr> Keyword = visit_keyword (code \<lparr>code = one_code, py2 = True\<rparr>)
        \<and> methods_get \<lparr>code = one_code, py2 = True\<rparr> SetComp = handle_comp (code \<lparr>code = one_code, py2 = True\<rparr>) ''{''
        \<and> methods_get \<lparr>code = one_code, py2 = True\<rparr> DictComp = handle_comp (code \<lparr>code = one_code, py2 = True\<rparr>) ''{'')
   \<and> visit_node \<lparr>code = one_code, py2 = False\<rparr> None (Node (Attrs ListComp 1 (Some 0) None) [] None None) = Inl IndexError
   \<and> visit_nodes \<lparr>code = one_code, py2 = False\<rparr> None ([one_leaf] @ one_comp # []) = Inl IndexError
   \<and> (\<exists>e'. visit_tree \<lparr>code = open_code, py2 = False\<rparr> open_tree = Inl e')
   \<and> (\<exists>cs' pf pl fa' la' fb' lb' fc lc.
              visit_nodes call_self (fst (visit_before_children call_self (attrs call_tree) None)) (children call_tree) = Inr cs'
            \<and> preliminary_range call_self (Node (attrs call_tree) cs' (first_token call_tree) (last_token call_tree)) None (snd (visit_before_children call_self (attrs call_tree) None))
                = Inr (pf, pl)
            \<and> expand_to_matching_pairs (code call_self) pf pl (Node (attrs call_tree) cs' (first_token call_tree) (last_token call_tree)) = Inr (fa', la')
            \<and> methods_get call_self (cls (attrs call_tree)) (Node (attrs call_tree) cs' (first_token call_tree) (last_token call_tree)) fa' la' = Inr (fb', lb')
            \<and> (if (fb', lb') \<noteq> (fa', la')
               then expand_to_matching_pairs (code call_self) fb' lb' (Node (attrs call_tree) cs' (first_token call_tree) (last_token call_tree))
               else Inr (fb', lb')) = Inr (fc, lc))
   \<and> (\<exists>pt at cs fo lo cs'. (pt, Node at cs fo lo) \<in> set (visits \<lparr>code = one_code, py2 = False\<rparr> None one_module)
            \<and> visit_nodes \<lparr>code = one_code, py2 = False\<rparr> (fst (visit_before_children \<lparr>code = one_code, py2 = False\<rparr> at pt)) cs = Inr cs'
            \<and> visit_after_children \<lparr>code = one_code, py2 = False\<rparr> (Node at cs' fo lo) pt (snd (visit_before_children \<lparr>code = one_code, py2 = False\<rparr> at pt))
                = Inl IndexError)"
proof -
  have haa: "next_token one_code one_tok = Inl IndexError"
    by code_simp
  from boundary_failures_surface[where c = "one_code" and l = "one_tok" and e = "IndexError" and n = "one_leaf" and f = "one_tok",
      THEN conjunct1] haa
  have wa: "visit_tuple one_code one_leaf one_tok one_tok = Inr (one_tok, one_tok)"
    by blast
  have hba: "find_token pass_code (Token NAME ''pass'' 0) NEWLINE None False = Inl IndexError"
    by code_simp
  from boundary_failures_surface[where c = "pass_code" and l = "(Token NAME ''pass'' 0)" and e = "IndexError",
      THEN conjunct2, THEN conjunct1] hba
  have wb: "find_last_in_line pass_code (Token NAME ''pass'' 0) = ebind (find_token pass_code (Token NAME ''pass'' 0) ENDMARKER None False) (prev_token pass_code)"
    by blast
  have hca: "prev_token one_code one_tok = Inl IndexError"
    by code_simp
  from boundary_failures_surface[where c = "one_code" and f = "one_tok" and e = "IndexError" and b = "''[''" and n = "one_comp" and l = "one_tok",
      THEN conjunct2, THEN conjunct2, THEN conjunct1] hca
  have wc: "handle_comp one_code ''['' one_comp one_tok one_tok = Inl IndexError"
    by blast
  have hda: "find_token one_code one_tok NAME (Some ''for'') True = Inl IndexError"
    by code_simp
  from boundary_failures_surface[where c = "one_code" and f = "one_tok" and e = "IndexError" and n = "one_leaf" and l = "one_tok",
      THEN conjunct2, THEN conjunct2, THEN conjunct2, THEN conjunct1] hda
  have wd: "visit_comprehension one_code one_leaf one_tok one_tok = Inl IndexError"
    by blast
  have hea: "find_token one_code one_tok OP (Some ''.'') False = Inl IndexError"
    by code_simp
  from boundary_failures_surface[where c = "one_code" and f = "one_tok" and e = "IndexError" and n = "one_leaf" and l = "one_tok",
      THEN conjunct2, THEN conjunct2, THEN conjunct2, THEN conjunct2, THEN conjunct1] hea
  have we: "handle_attr one_code one_leaf one_tok one_tok = Inl IndexError"
    by blast
  have hfa: "find_token [Lexeme NAME ''x'' (1, 0), Lexeme OP ''.'' (1, 1)] one_tok OP (Some ''.'') False = Inr (Token OP ''.'' 1)"
    by code_simp
  have hfb: "next_token [Lexeme NAME ''x'' (1, 0), Lexeme OP ''.'' (1, 1)] (Token OP ''.'' 1) = Inl IndexError"
    by code_simp
  from boundary_failures_surface[where c = "[Lexeme NAME ''x'' (1, 0), Lexeme OP ''.'' (1, 1)]" and f = "one_tok" and e = "IndexError" and n = "one_leaf" and l = "one_tok" and d = "(Token OP ''.'' 1)",
      THEN conjunct2, THEN conjunct2, THEN conjunct2, THEN conjunct2, THEN conjunct2, THEN conjunct1] hfa hfb
  have wf: "handle_attr [Lexeme NAME ''x'' (1, 0), Lexeme OP ''.'' (1, 1)] one_leaf one_tok one_tok = Inl IndexError"
    by blast
  have hga: "find_token one_code one_tok OP (Some '')'') False = Inl IndexError"
    by code_simp
  from boundary_failures_surface[where c = "one_code" and f = "one_tok" and e = "IndexError" and n = "one_leaf" and l = "one_tok",
      THEN conjunct2, THEN conjunct2, THEN conjunct2, THEN conjunct2, THEN conjunct2, THEN conjunct2, THEN conjunct1] hga
  have wg: "visit_call one_code one_leaf one_tok one_tok = Inl IndexError"
    by blast
  have hha: "find_token one_code one_tok OP (Some '']'') False = Inl IndexError"
    by code_simp
  from boundary_failures_surface[where c = "one_code" and f = "one_tok" and e = "IndexError" and n = "one_leaf" and l = "one_tok",
      THEN conjunct2, THEN conjunct2, THEN conjunct2, THEN conjunct2, THEN conjunct2, THEN conjunct2, THEN conjunct2, THEN conjunct1] hha
  have wh: "visit_subscript one_code one_leaf one_tok one_tok = Inl IndexError"
    by blast
  have hia: "tok_type (Token OP ''-'' 0) = OP"
    by code_simp
  have hib: "list_all (\<lambda>x. lex_type x = OP) (drop (Suc (index (Token OP ''-'' 0))) [Lexeme OP ''-'' (1, 0), Lexeme OP ''-'' (1, 1)])"
    by code_simp
  from boundary_failures_surface[where c = "[Lexeme OP ''-'' (1, 0), Lexeme OP ''-'' (1, 1)]" and f = "(Token OP ''-'' 0)" and n = "one_leaf" and l = "(Token OP ''-'' 0)",
      THEN conjunct2, THEN conjunct2, THEN conjunct2, THEN conjunct2, THEN conjunct2, THEN conjunct2, THEN conjunct2, THEN conjunct2, THEN conjunct1] hia hib
  have wi: "visit_num [Lexeme OP ''-'' (1, 0), Lexeme OP ''-'' (1, 1)] one_leaf (Token OP ''-'' 0) (Token OP ''-'' 0) = Inl IndexError"
    by blast
  have hja: "arg (attrs one_keyword) = Some ''k''"
    by code_simp
  have hjb: "find_token one_code one_tok OP (Some ''='') True = Inl IndexError"
    by code_simp
  from boundary_failures_surface[where c = "one_code" and f = "one_tok" and e = "IndexError" and n = "one_keyword" and l = "one_tok" and a = "''k''",
      THEN conjunct2, THEN conjunct2, THEN conjunct2, THEN conjunct2, THEN conjunct2, THEN conjunct2, THEN conjunct2, THEN conjunct2, THEN conjunct2, THEN conjunct1] hja hjb
  have wj: "visit_keyword one_code one_keyword one_tok one_tok = Inl IndexError"
    by blast
  have hka: "arg (attrs one_keyword) = Some ''k''"
    by code_simp
  have hkb: "find_token [Lexeme OP ''='' (1, 0)] (Token OP ''='' 0) OP (Some ''='') True = Inr (Token OP ''='' 0)"
    by code_simp
  have hkc: "prev_token [Lexeme OP ''='' (1, 0)] (Token OP ''='' 0) = Inl IndexError"
    by code_simp
  from boundary_failures_surface[where c = "[Lexeme OP ''='' (1, 0)]" and f = "(Token OP ''='' 0)" and e = "IndexError" and n = "one_keyword" and l = "(Token OP ''='' 0)" and a = "''k''" and q = "(Token OP ''='' 0)",
      THEN conjunct2, THEN conjunct2, THEN conjunct2, THEN conjunct2, THEN conjunct2, THEN conjunct2, THEN conjunct2, THEN conjunct2, THEN conjunct2, THEN conjunct2, THEN conjunct1] hka hkb hkc
  have wk: "visit_keyword [Lexeme OP ''='' (1, 0)] one_keyword (Token OP ''='' 0) (Token OP ''='' 0) = Inl IndexError"
    by blast
  have hla: "length open_code - Suc (index (Token NAME ''x'' 2)) < length [(OP, '']''), (OP, '')'')]"
    by code_simp
  have hlb: "map (\<lambda>i. tok_info (tok_at open_code i)) [Suc (index (Token NAME ''x'' 2)) ..< length open_code] = take (length open_code - Suc (index (Token NAME ''x'' 2))) [(OP, '']''), (OP, '')'')]"
    by code_simp
  from boundary_failures_surface[where c = "open_code" and l = "(Token NAME ''x'' 2)" and ms = "[(OP, '']''), (OP, '')'')]",
      THEN conjunct2, THEN conjunct2, THEN conjunct2, THEN conjunct2, THEN conjunct2, THEN conjunct2, THEN conjunct2, THEN conjunct2, THEN conjunct2, THEN conjunct2, THEN conjunct2, THEN conjunct1] hla hlb
  have wl: "extend_last open_code (Token NAME ''x'' 2) [(OP, '']''), (OP, '')'')] = Inl IndexError"
    by blast
  have hma: "index (Token NAME ''x'' 1) < length [(OP, ''(''), (OP, ''['')]"
    by code_simp
  have hmb: "map (\<lambda>i. tok_info (tok_at [Lexeme OP ''('' (1, 0), Lexeme NAME ''x'' (1, 1)] i)) (rev [0 ..< index (Token NAME ''x'' 1)]) = take (index (Token NAME ''x'' 1)) [(OP, ''(''), (OP, ''['')]"
    by code_simp
  from boundary_failures_surface[where c = "[Lexeme OP ''('' (1, 0), Lexeme NAME ''x'' (1, 1)]" and f = "(Token NAME ''x'' 1)" and ms = "[(OP, ''(''), (OP, ''['')]",
      THEN conjunct2, THEN conjunct2, THEN conjunct2, THEN conjunct2, THEN conjunct2, THEN conjunct2, THEN conjunct2, THEN conjunct2, THEN conjunct2, THEN conjunct2, THEN conjunct2, THEN conjunct2, THEN conjunct1] hma hmb
  have wm: "extend_first [Lexeme OP ''('' (1, 0), Lexeme NAME ''x'' (1, 1)] (Token NAME ''x'' 1) [(OP, ''(''), (OP, ''['')] = Inl IndexError"
    by blast
  have hna: "list_all (passes_child names_code (Token NAME ''z'' 2)) [names_y]"
    by code_simp
  have hnb: "first_token names_x = Some one_tok"
    by code_simp
  have hnc: "prev_token names_code one_tok = Inl IndexError"
    by code_simp
  from boundary_failures_surface[where c = "names_code" and l = "(Token NAME ''z'' 2)" and pre = "[names_y]" and ch = "names_x" and cf = "one_tok" and e = "IndexError" and t = "one_tok" and rest = "[]",
      THEN conjunct2, THEN conjunct2, THEN conjunct2, THEN conjunct2, THEN conjunct2, THEN conjunct2, THEN conjunct2, THEN conjunct2, THEN conjunct2, THEN conjunct2, THEN conjunct2, THEN conjunct2, THEN conjunct2, THEN conjunct1] hna hnb hnc
  have wn: "iter_non_child_tokens_from names_code one_tok (Token NAME ''z'' 2) ([names_y] @ names_x # []) = Inl IndexError"
    by blast
  have hoa: "list_all (passes_child names_code (Token NAME ''w'' 5)) [names_y]"
    by code_simp
  have hob: "first_token names_z = Some (Token NAME ''z'' 2)"
    by code_simp
  have hoc: "prev_token names_code (Token NAME ''z'' 2) = Inr (Token NAME ''y'' 1)"
    by code_simp
  have hod: "last_token names_z = Some (Token NAME ''z'' 2)"
    by code_simp
  have hoe: "index (Token NAME ''z'' 2) < index (Token NAME ''w'' 5)"
    by code_simp
  have hof: "next_token names_code (Token NAME ''z'' 2) = Inl IndexError"
    by code_simp
  from boundary_failures_surface[where c = "names_code" and l = "(Token NAME ''w'' 5)" and pre = "[names_y]" and ch = "names_z" and cf = "(Token NAME ''z'' 2)" and q = "(Token NAME ''y'' 1)" and cl = "(Token NAME ''z'' 2)" and e = "IndexError" and t = "one_tok" and rest = "[]",
      THEN conjunct2, THEN conjunct2, THEN conjunct2, THEN conjunct2, THEN conjunct2, THEN conjunct2, THEN conjunct2, THEN conjunct2, THEN conjunct2, THEN conjunct2, THEN conjunct2, THEN conjunct2, THEN conjunct2, THEN conjunct2, THEN conjunct1] hoa hob hoc hod hoe hof
  have wo: "iter_non_child_tokens_from names_code one_tok (Token NAME ''w'' 5) ([names_y] @ names_z # []) = Inl IndexError"
    by blast
  have hpa: "find_token [Lexeme NEWLINE [] (1, 0)] (Token NEWLINE [] 0) NEWLINE None False = Inr (Token NEWLINE [] 0)"
    by code_simp
  have hpb: "prev_token [Lexeme NEWLINE [] (1, 0)] (Token NEWLINE [] 0) = Inl IndexError"
    by code_simp
  from boundary_failures_surface[where c = "[Lexeme NEWLINE [] (1, 0)]" and l = "(Token NEWLINE [] 0)" and nl = "(Token NEWLINE [] 0)" and e = "IndexError",
      THEN conjunct2, THEN conjunct2, THEN conjunct2, THEN conjunct2, THEN conjunct2, THEN conjunct2, THEN conjunct2, THEN conjunct2, THEN conjunct2, THEN conjunct2, THEN conjunct2, THEN conjunct2, THEN conjunct2, THEN conjunct2, THEN conjunct2, THEN conjunct1] hpa hpb
  have wp: "find_last_in_line [Lexeme NEWLINE [] (1, 0)] (Token NEWLINE [] 0) = Inl IndexError"
    by blast
  have hqa: "find_token one_code one_tok NEWLINE None False = Inl IndexError"
    by code_simp
  have hqb: "find_token one_code one_tok ENDMARKER None False = Inl IndexError"
    by code_simp
  from boundary_failures_surface[where c = "one_code" and l = "one_tok" and e = "IndexError" and e' = "IndexError",
      THEN conjunct2, THEN conjunct2, THEN conjunct2, THEN conjunct2, THEN conjunct2, THEN conjunct2, THEN conjunct2, THEN conjunct2, THEN conjunct2, THEN conjunct2, THEN conjunct2, THEN conjunct2, THEN conjunct2, THEN conjunct2, THEN conjunct2, THEN conjunct2, THEN conjunct1] hqa hqb
  have wq: "find_last_in_line one_code one_tok = Inl IndexError"
    by blast
  have hra: "find_token [Lexeme ENDMARKER [] (1, 0)] (Token ENDMARKER [] 0) NEWLINE None False = Inl IndexError"
    by code_simp
  have hrb: "find_token [Lexeme ENDMARKER [] (1, 0)] (Token ENDMARKER [] 0) ENDMARKER None False = Inr (Token ENDMARKER [] 0)"
    by code_simp
  have hrc: "prev_token [Lexeme ENDMARKER [] (1, 0)] (Token ENDMARKER [] 0) = Inl IndexError"
    by code_simp
  from boundary_failures_surface[where c = "[Lexeme ENDMARKER [] (1, 0)]" and l = "(Token ENDMARKER [] 0)" and nl = "(Token ENDMARKER [] 0)" and e = "IndexError" and e' = "IndexError",
      THEN conjunct2, THEN conjunct2, THEN conjunct2, THEN conjunct2, THEN conjunct2, THEN conjunct2, THEN conjunct2, THEN conjunct2, THEN conjunct2, THEN conjunct2, THEN conjunct2, THEN conjunct2, THEN conjunct2, THEN conjunct2, THEN conjunct2, THEN conjunct2, THEN conjunct2, THEN conjunct1] hra hrb hrc
  have wr: "find_last_in_line [Lexeme ENDMARKER [] (1, 0)] (Token ENDMARKER [] 0) = Inl IndexError"
    by blast
  have hsa: "iter_non_child_tokens one_code one_tok one_tok one_parent = Inl IndexError"
    by code_simp
  from boundary_failures_surface[where c = "one_code" and f = "one_tok" and l = "one_tok" and n = "one_parent" and e = "IndexError",
      THEN conjunct2, THEN conjunct2, THEN conjunct2, THEN conjunct2, THEN conjunct2, THEN conjunct2, THEN conjunct2, THEN conjunct2, THEN conjunct2, THEN conjunct2, THEN conjunct2, THEN conjunct2, THEN conjunct2, THEN conjunct2, THEN conjunct2, THEN conjunct2, THEN conjunct2, THEN conjunct2, THEN conjunct1] hsa
  have ws: "expand_to_matching_pairs one_code one_tok one_tok one_parent = Inl IndexError"
    by blast
  have hta: "iter_non_child_tokens [Lexeme OP ''('' (1, 0)] (Token OP ''('' 0) (Token OP ''('' 0) one_leaf = Inr [Token OP ''('' 0]"
    by code_simp
  have htb: "extend_last [Lexeme OP ''('' (1, 0)] (Token OP ''('' 0) (rev (fst (scan_tokens [Token OP ''('' 0]))) = Inl IndexError"
    by code_simp
  from boundary_failures_surface[where c = "[Lexeme OP ''('' (1, 0)]" and f = "(Token OP ''('' 0)" and l = "(Token OP ''('' 0)" and n = "one_leaf" and e = "IndexError" and toks = "[Token OP ''('' 0]",
      THEN conjunct2, THEN conjunct2, THEN conjunct2, THEN conjunct2, THEN conjunct2, THEN conjunct2, THEN conjunct2, THEN conjunct2, THEN conjunct2, THEN conjunct2, THEN conjunct2, THEN conjunct2, THEN conjunct2, THEN conjunct2, THEN conjunct2, THEN conjunct2, THEN conjunct2, THEN conjunct2, THEN conjunct2, THEN conjunct1] hta htb
  have wt: "expand_to_matching_pairs [Lexeme OP ''('' (1, 0)] (Token OP ''('' 0) (Token OP ''('' 0) one_leaf = Inl IndexError"
    by blast
  have hua: "iter_non_child_tokens [Lexeme OP '')'' (1, 0)] (Token OP '')'' 0) (Token OP '')'' 0) one_leaf = Inr [Token OP '')'' 0]"
    by code_simp
  have hub: "extend_last [Lexeme OP '')'' (1, 0)] (Token OP '')'' 0) (rev (fst (scan_tokens [Token OP '')'' 0]))) = Inr (Token OP '')'' 0)"
    by code_simp
  have huc: "extend_first [Lexeme OP '')'' (1, 0)] (Token OP '')'' 0) (snd (scan_tokens [Token OP '')'' 0])) = Inl IndexError"
    by code_simp
  from boundary_failures_surface[where c = "[Lexeme OP '')'' (1, 0)]" and f = "(Token OP '')'' 0)" and l = "(Token OP '')'' 0)" and la = "(Token OP '')'' 0)" and n = "one_leaf" and e = "IndexError" and toks = "[Token OP '')'' 0]",
      THEN conjunct2, THEN conjunct2, THEN conjunct2, THEN conjunct2, THEN conjunct2, THEN conjunct2, THEN conjunct2, THEN conjunct2, THEN conjunct2, THEN conjunct2, THEN conjunct2, THEN conjunct2, THEN conjunct2, THEN conjunct2, THEN conjunct2, THEN conjunct2, THEN conjunct2, THEN conjunct2, THEN conjunct2, THEN conjunct2, THEN conjunct1] hua hub huc
  have wu: "expand_to_matching_pairs [Lexeme OP '')'' (1, 0)] (Token OP '')'' 0) (Token OP '')'' 0) one_leaf = Inl IndexError"
    by blast
  have hva: "combine_range one_stmt None (Some one_tok) = Inr (one_tok, one_tok)"
    by code_simp
  have hvb: "is_stmt (cls (attrs one_stmt))"
    by code_simp
  have hvc: "find_last_in_line (code \<lparr>code = one_code, py2 = False\<rparr>) one_tok = Inl IndexError"
    by code_simp
  from boundary_failures_surface[where n = "one_stmt" and p = "None" and tok = "Some one_tok" and f = "one_tok" and l = "one_tok" and self = "\<lparr>code = one_code, py2 = False\<rparr>" and e = "IndexError",
      THEN conjunct2, THEN conjunct2, THEN conjunct2, THEN conjunct2, THEN conjunct2, THEN conjunct2, THEN conjunct2, THEN conjunct2, THEN conjunct2, THEN conjunct2, THEN conjunct2, THEN conjunct2, THEN conjunct2, THEN conjunct2, THEN conjunct2, THEN conjunct2, THEN conjunct2, THEN conjunct2, THEN conjunct2, THEN conjunct2, THEN conjunct2, THEN conjunct1] hva hvb hvc
  have wv: "preliminary_range \<lparr>code = one_code, py2 = False\<rparr> one_stmt None (Some one_tok) = Inl IndexError"
    by blast
  have hwa: "preliminary_range \<lparr>code = one_code, py2 = False\<rparr> one_stmt None (Some one_tok) = Inl IndexError"
    by code_simp
  from boundary_failures_surface[where n = "one_stmt" and p = "None" and tok = "Some one_tok" and self = "\<lparr>code = one_code, py2 = False\<rparr>" and e = "IndexError",
      THEN conjunct2, THEN conjunct2, THEN conjunct2, THEN conjunct2, THEN conjunct2, THEN conjunct2, THEN conjunct2, THEN conjunct2, THEN conjunct2, THEN conjunct2, THEN conjunct2, THEN conjunct2, THEN conjunct2, THEN conjunct2, THEN conjunct2, THEN conjunct2, THEN conjunct2, THEN conjunct2, THEN conjunct2, THEN conjunct2, THEN conjunct2, THEN conjunct2, THEN conjunct1] hwa
  have ww: "visit_after_children \<lparr>code = one_code, py2 = False\<rparr> one_stmt None (Some one_tok) = Inl IndexError"
    by blast
  have hxa: "preliminary_range \<lparr>code = one_code, py2 = False\<rparr> one_parent None (Some one_tok) = Inr (one_tok, one_tok)"
    by code_simp
  have hxb: "expand_to_matching_pairs (code \<lparr>code = one_code, py2 = False\<rparr>) one_tok one_tok one_parent = Inl IndexError"
    by code_simp
  from boundary_failures_surface[where n = "one_parent" and p = "None" and tok = "Some one_tok" and f = "one_tok" and l = "one_tok" and self = "\<lparr>code = one_code, py2 = False\<rparr>" and e = "IndexError",
      THEN conjunct2, THEN conjunct2, THEN conjunct2, THEN conjunct2, THEN conjunct2, THEN conjunct2, THEN conjunct2, THEN conjunct2, THEN conjunct2, THEN conjunct2, THEN conjunct2, THEN conjunct2, THEN conjunct2, THEN conjunct2, THEN conjunct2, THEN conjunct2, THEN conjunct2, THEN conjunct2, THEN conjunct2, THEN conjunct2, THEN conjunct2, THEN conjunct2, THEN conjunct2, THEN conjunct1] hxa hxb
  have wx: "visit_after_children \<lparr>code = one_code, py2 = False\<rparr> one_parent None (Some one_tok) = Inl IndexError"
    by blast
  have hya: "preliminary_range \<lparr>code = one_code, py2 = False\<rparr> one_comp None (Some one_tok) = Inr (one_tok, one_tok)"
    by code_simp
  have hyb: "expand_to_matching_pairs (code \<lparr>code = one_code, py2 = False\<rparr>) one_tok one_tok one_comp = Inr (one_tok, one_tok)"
    by code_simp
  have hyc: "methods_get \<lparr>code = one_code, py2 = False\<rparr> (cls (attrs one_comp)) one_comp one_tok one_tok = Inl IndexError"
    by code_simp
  from boundary_failures_surface[where n = "one_comp" and p = "None" and tok = "Some one_tok" and f = "one_tok" and l = "one_tok" and fa = "one_tok" and la = "one_tok" and self = "\<lparr>code = one_code, py2 = False\<rparr>" and e = "IndexError",
      THEN conjunct2, THEN conjunct2, THEN conjunct2, THEN conjunct2, THEN conjunct2, THEN conjunct2, THEN conjunct2, THEN conjunct2, THEN conjunct2, THEN conjunct2, THEN conjunct2, THEN conjunct2, THEN conjunct2, THEN conjunct2, THEN conjunct2, THEN conjunct2, THEN conjunct2, THEN conjunct2, THEN conjunct2, THEN conjunct2, THEN conjunct2, THEN conjunct2, THEN conjunct2, THEN conjunct2, THEN conjunct1] hya hyb hyc
  have wy: "visit_after_children \<lparr>code = one_code, py2 = False\<rparr> one_comp None (Some one_tok) = Inl IndexError"
    by blast
  have hza: "preliminary_range \<lparr>code = [Lexeme NAME ''f'' (1, 0), Lexeme OP '')'' (1, 1)], py2 = False\<rparr> (Node (Attrs Call 1 (Some 0) None) [] None None) None (Some (Token NAME ''f'' 0)) = Inr ((Token NAME ''f'' 0), (Token NAME ''f'' 0))"
    by code_simp
  have hzb: "expand_to_matching_pairs (code \<lparr>code = [Lexeme NAME ''f'' (1, 0), Lexeme OP '')'' (1, 1)], py2 = False\<rparr>) (Token NAME ''f'' 0) (Token NAME ''f'' 0) (Node (Attrs Call 1 (Some 0) None) [] None None) = Inr ((Token NAME ''f'' 0), (Token NAME ''f'' 0))"
    by code_simp
  have hzc: "methods_get \<lparr>code = [Lexeme NAME ''f'' (1, 0), Lexeme OP '')'' (1, 1)], py2 = False\<rparr> (cls (attrs (Node (Attrs Call 1 (Some 0) None) [] None None))) (Node (Attrs Call 1 (Some 0) None) [] None None) (Token NAME ''f'' 0) (Token NAME ''f'' 0) = Inr ((Token NAME ''f'' 0), (Token OP '')'' 1))"
    by code_simp
  have hzd: "((Token NAME ''f'' 0), (Token OP '')'' 1)) \<noteq> ((Token NAME ''f'' 0), (Token NAME ''f'' 0))"
    by code_simp
  have hze: "expand_to_matching_pairs (code \<lparr>code = [Lexeme NAME ''f'' (1, 0), Lexeme OP '')'' (1, 1)], py2 = False\<rparr>) (Token NAME ''f'' 0) (Token OP '')'' 1) (Node (Attrs Call 1 (Some 0) None) [] None None) = Inl IndexError"
    by code_simp
  from boundary_failures_surface[where n = "(Node (Attrs Call 1 (Some 0) None) [] None None)" and p = "None" and tok = "Some (Token NAME ''f'' 0)" and f = "(Token NAME ''f'' 0)" and l = "(Token NAME ''f'' 0)" and fa = "(Token NAME ''f'' 0)" and la = "(Token NAME ''f'' 0)" and fb = "(Token NAME ''f'' 0)" and lb = "(Token OP '')'' 1)" and self = "\<lparr>code = [Lexeme NAME ''f'' (1, 0), Lexeme OP '')'' (1, 1)], py2 = False\<rparr>" and e = "IndexError",
      THEN conjunct2, THEN conjunct2, THEN conjunct2, THEN conjunct2, THEN conjunct2, THEN conjunct2, THEN conjunct2, THEN conjunct2, THEN conjunct2, THEN conjunct2, THEN conjunct2, THEN conjunct2, THEN conjunct2, THEN conjunct2, THEN conjunct2, THEN conjunct2, THEN conjunct2, THEN conjunct2, THEN conjunct2, THEN conjunct2, THEN conjunct2, THEN conjunct2, THEN conjunct2, THEN conjunct2, THEN conjunct2, THEN conjunct1] hza hzb hzc hzd hze
  have wz: "visit_after_children \<lparr>code = [Lexeme NAME ''f'' (1, 0), Lexeme OP '')'' (1, 1)], py2 = False\<rparr> (Node (Attrs Call 1 (Some 0) None) [] None None) None (Some (Token NAME ''f'' 0)) = Inl IndexError"
    by blast
  have hAa: "py2 \<lparr>code = one_code, py2 = True\<rparr>"
    by code_simp
  from boundary_failures_surface[where self = "\<lparr>code = one_code, py2 = True\<rparr>",
      THEN conjunct2, THEN conjunct2, THEN conjunct2, THEN conjunct2, THEN conjunct2, THEN conjunct2, THEN conjunct2, THEN conjunct2, THEN conjunct2, THEN conjunct2, THEN conjunct2, THEN conjunct2, THEN conjunct2, THEN conjunct2, THEN conjunct2, THEN conjunct2, THEN conjunct2, THEN conjunct2, THEN conjunct2, THEN conjunct2, THEN conjunct2, THEN conjunct2, THEN conjunct2, THEN conjunct2, THEN conjunct2, THEN conjunct2, THEN conjunct1] hAa
  have wA: "methods_get \<lparr>code = one_code, py2 = True\<rparr> ListComp = handle_comp (code \<lparr>code = one_code, py2 = True\<rparr>) ''[''
        \<and> methods_get \<lparr>code = one_code, py2 = True\<rparr> Comprehension = visit_comprehension (code \<lparr>code = one_code, py2 = True\<rparr>)
        \<and> methods_get \<lparr>code = one_code, py2 = True\<rparr> Attribute = handle_attr (code \<lparr>code = one_code, py2 = True\<rparr>)
        \<and> methods_get \<lparr>code = one_code, py2 = True\<rparr> AssignAttr = handle_attr (code \<lparr>code = one_code, py2 = True\<rparr>)
        \<and> methods_get \<lparr>code = one_code, py2 = True\<rparr> DelAttr = handle_attr (code \<lparr>code = one_code, py2 = True\<rparr>)
        \<and> methods_get \<lparr>code = one_code, py2 = True\<rparr> Call = visit_call (code \<lparr>code = one_code, py2 = True\<rparr>)
        \<and> methods_get \<lparr>code = one_code, py2 = True\<rparr> Subscript = visit_subscript (code \<lparr>code = one_code, py2 = True\<rparr>)
        \<and> methods_get \<lparr>code = one_code, py2 = True\<rparr> Tuple = visit_tuple (code \<lparr>code = one_code, py2 = True\<rparr>)
        \<and> methods_get \<lparr>code = one_code, py2 = True\<rparr> Num = visit_num (code \<lparr>code = one_code, py2 = True\<rparr>)
        \<and> methods_get \<lparr>code = one_code, py2 = True\<rparr> Keyword = visit_keyword (code \<lparr>code = one_code, py2 = True\<rparr>)
        \<and> methods_get \<lparr>code = one_code, py2 = True\<rparr> SetComp = handle_comp (code \<lparr>code = one_code, py2 = True\<rparr>) ''{''
        \<and> methods_get \<lparr>code = one_code, py2 = True\<rparr> DictComp = handle_comp (code \<lparr>code = one_code, py2 = True\<rparr>) ''{''"
    by blast
  have hBa: "visit_nodes \<lparr>code = one_code, py2 = False\<rparr> (fst (visit_before_children \<lparr>code = one_code, py2 = False\<rparr> (Attrs ListComp 1 (Some 0) None) None)) [] = Inr []"
    by code_simp
  have hBb: "visit_after_children \<lparr>code = one_code, py2 = False\<rparr> (Node (Attrs ListComp 1 (Some 0) None) [] None None) None (snd (visit_before_children \<lparr>code = one_code, py2 = False\<rparr> (Attrs ListComp 1 (Some 0) None) None)) = Inl IndexError"
    by code_simp
  from boundary_failures_surface[where self = "\<lparr>code = one_code, py2 = False\<rparr>" and at = "(Attrs ListComp 1 (Some 0) None)" and p = "None" and cs = "[]" and cs' = "[]" and fo = "None" and lo = "None" and e = "IndexError",
      THEN conjunct2, THEN conjunct2, THEN conjunct2, THEN conjunct2, THEN conjunct2, THEN conjunct2, THEN conjunct2, THEN conjunct2, THEN conjunct2, THEN conjunct2, THEN conjunct2, THEN conjunct2, THEN conjunct2, THEN conjunct2, THEN conjunct2, THEN conjunct2, THEN conjunct2, THEN conjunct2, THEN conjunct2, THEN conjunct2, THEN conjunct2, THEN conjunct2, THEN conjunct2, THEN conjunct2, THEN conjunct2, THEN conjunct2, THEN conjunct2, THEN conjunct1] hBa hBb
  have wB: "visit_node \<lparr>code = one_code, py2 = False\<rparr> None (Node (Attrs ListComp 1 (Some 0) None) [] None None) = Inl IndexError"
    by blast
  have hCa: "visit_nodes \<lparr>code = one_code, py2 = False\<rparr> None [one_leaf] = Inr [Node (Attrs (OtherNode ''Name'') 1 (Some 0) None) [] (Some one_tok) (Some one_tok)]"
    by code_simp
  have hCb: "visit_node \<lparr>code = one_code, py2 = False\<rparr> None one_comp = Inl IndexError"
    by code_simp
  from boundary_failures_surface[where self = "\<lparr>code = one_code, py2 = False\<rparr>" and pv = "None" and pre = "[one_leaf]" and pre' = "[Node (Attrs (OtherNode ''Name'') 1 (Some 0) None) [] (Some one_tok) (Some one_tok)]" and n = "one_comp" and e = "IndexError" and rest = "[]",
      THEN conjunct2, THEN conjunct2, THEN conjunct2, THEN conjunct2, THEN conjunct2, THEN conjunct2, THEN conjunct2, THEN conjunct2, THEN conjunct2, THEN conjunct2, THEN conjunct2, THEN conjunct2, THEN conjunct2, THEN conjunct2, THEN conjunct2, THEN conjunct2, THEN conjunct2, THEN conjunct2, THEN conjunct2, THEN conjunct2, THEN conjunct2, THEN conjunct2, THEN conjunct2, THEN conjunct2, THEN conjunct2, THEN conjunct2, THEN conjunct2, THEN conjunct2, THEN conjunct1] hCa hCb
  have wC: "visit_nodes \<lparr>code = one_code, py2 = False\<rparr> None ([one_leaf] @ one_comp # []) = Inl IndexError"
    by blast
  have hDa: "(None, Node (Attrs (OtherNode ''Expr'') 1 (Some 0) None) [Node (Attrs (OtherNode ''Name'') 1 (Some 2) None) [] None None] None None) \<in> set (visits \<lparr>code = open_code, py2 = False\<rparr> None open_tree)"
    by code_simp
  have hDb: "visit_nodes \<lparr>code = open_code, py2 = False\<rparr> (fst (visit_before_children \<lparr>code = open_code, py2 = False\<rparr> (Attrs (OtherNode ''Expr'') 1 (Some 0) None) None)) [Node (Attrs (OtherNode ''Name'') 1 (Some 2) None) [] None None] = Inr [open_child]"
    by code_simp
  have hDc: "visit_after_children \<lparr>code = open_code, py2 = False\<rparr> (Node (Attrs (OtherNode ''Expr'') 1 (Some 0) None) [open_child] None None) None (snd (visit_before_children \<lparr>code = open_code, py2 = False\<rparr> (Attrs (OtherNode ''Expr'') 1 (Some 0) None) None)) = Inl IndexError"
    by code_simp
  from boundary_failures_surface[where self = "\<lparr>code = open_code, py2 = False\<rparr>" and root = "open_tree" and pt = "None" and at = "(Attrs (OtherNode ''Expr'') 1 (Some 0) None)" and cs = "[Node (Attrs (OtherNode ''Name'') 1 (Some 2) None) [] None None]" and cs' = "[open_child]" and fo = "None" and lo = "None" and e = "IndexError",
      THEN conjunct2, THEN conjunct2, THEN conjunct2, THEN conjunct2, THEN conjunct2, THEN conjunct2, THEN conjunct2, THEN conjunct2, THEN conjunct2, THEN conjunct2, THEN conjunct2, THEN conjunct2, THEN conjunct2, THEN conjunct2, THEN conjunct2, THEN conjunct2, THEN conjunct2, THEN conjunct2, THEN conjunct2, THEN conjunct2, THEN conjunct2, THEN conjunct2, THEN conjunct2, THEN conjunct2, THEN conjunct2, THEN conjunct2, THEN conjunct2, THEN conjunct2, THEN conjunct2, THEN conjunct1] hDa hDb hDc
  have wD: "\<exists>e'. visit_tree \<lparr>code = open_code, py2 = False\<rparr> open_tree = Inl e'"
    by blast
  have hEa: "visit_tree call_self call_tree = Inr call_marked"
    by code_simp
  have hEb: "(None, Node (attrs call_tree) (children call_tree) (first_token call_tree) (last_token call_tree)) \<in> set (visits call_self None call_tree)"
    by code_simp
  from boundary_failures_surface[where self = "call_self" and root = "call_tree" and root' = "call_marked" and pt = "None" and at = "(attrs call_tree)" and cs = "(children call_tree)" and fo = "(first_token call_tree)" and lo = "(last_token call_tree)",
      THEN conjunct2, THEN conjunct2, THEN conjunct2, THEN conjunct2, THEN conjunct2, THEN conjunct2, THEN conjunct2, THEN conjunct2, THEN conjunct2, THEN conjunct2, THEN conjunct2, THEN conjunct2, THEN conjunct2, THEN conjunct2, THEN conjunct2, THEN conjunct2, THEN conjunct2, THEN conjunct2, THEN conjunct2, THEN conjunct2, THEN conjunct2, THEN conjunct2, THEN conjunct2, THEN conjunct2, THEN conjunct2, THEN conjunct2, THEN conjunct2, THEN conjunct2, THEN conjunct2, THEN conjunct2, THEN conjunct1] hEa hEb
  have wE: "\<exists>cs' pf pl fa' la' fb' lb' fc lc.
              visit_nodes call_self (fst (visit_before_children call_self (attrs call_tree) None)) (children call_tree) = Inr cs'
            \<and> preliminary_range call_self (Node (attrs call_tree) cs' (first_token call_tree) (last_token call_tree)) None (snd (visit_before_children call_self (attrs call_tree) None))
                = Inr (pf, pl)
            \<and> expand_to_matching_pairs (code call_self) pf pl (Node (attrs call_tree) cs' (first_token call_tree) (last_token call_tree)) = Inr (fa', la')
            \<and> methods_get call_self (cls (attrs call_tree)) (Node (attrs call_tree) cs' (first_token call_tree) (last_token call_tree)) fa' la' = Inr (fb', lb')
            \<and> (if (fb', lb') \<noteq> (fa', la')
               then expand_to_matching_pairs (code call_self) fb' lb' (Node (attrs call_tree) cs' (first_token call_tree) (last_token call_tree))
               else Inr (fb', lb')) = Inr (fc, lc)"
    by blast
  have hFa: "visit_tree \<lparr>code = one_code, py2 = False\<rparr> one_module = Inl IndexError"
    by code_simp
  from boundary_failures_surface[where self = "\<lparr>code = one_code, py2 = False\<rparr>" and root = "one_module" and e = "IndexError",
      THEN conjunct2, THEN conjunct2, THEN conjunct2, THEN conjunct2, THEN conjunct2, THEN conjunct2, THEN conjunct2, THEN conjunct2, THEN conjunct2, THEN conjunct2, THEN conjunct2, THEN conjunct2, THEN conjunct2, THEN conjunct2, THEN conjunct2, THEN conjunct2, THEN conjunct2, THEN conjunct2, THEN conjunct2, THEN conjunct2, THEN conjunct2, THEN conjunct2, THEN conjunct2, THEN conjunct2, THEN conjunct2, THEN conjunct2, THEN conjunct2, THEN conjunct2, THEN conjunct2, THEN conjunct2, THEN conjunct2] hFa
  have wF: "\<exists>pt at cs fo lo cs'. (pt, Node at cs fo lo) \<in> set (visits \<lparr>code = one_code, py2 = False\<rparr> None one_module)
            \<and> visit_nodes \<lparr>code = one_code, py2 = False\<rparr> (fst (visit_before_children \<lparr>code = one_code, py2 = False\<rparr> at pt)) cs = Inr cs'
            \<and> visit_after_children \<lparr>code = one_code, py2 = False\<rparr> (Node at cs' fo lo) pt (snd (visit_before_children \<lparr>code = one_code, py2 = False\<rparr> at pt))
                = Inl IndexError"
    by blast
  show ?thesis
    by (rule conjI, rule wa,
        rule conjI, rule wb,
        rule conjI, rule wc,
        rule conjI, rule wd,
        rule conjI, rule we,
        rule conjI, rule wf,
        rule conjI, rule wg,
        rule conjI, rule wh,
        rule conjI, rule wi,
        rule conjI, rule wj,
        rule conjI, rule wk,
        rule conjI, rule wl,
        rule conjI, rule wm,
        rule conjI, rule wn,
        rule conjI, rule wo,
        rule conjI, rule wp,
        rule conjI, rule wq,
        rule conjI, rule wr,
        rule conjI, rule ws,
        rule conjI, rule wt,
        rule conjI, rule wu,
        rule conjI, rule wv,
        rule conjI, rule ww,
        rule conjI, rule wx,
        rule conjI, rule wy,
        rule conjI, rule wz,
        rule conjI, rule wA,
        rule conjI, rule wB,
        rule conjI, rule wC,
        rule conjI, rule wD,
        rule conjI, rule wE,
        rule wF)
qed

end
